theory Spec2Isabelle
  imports Main "HOL-Library.Word" "HOL-Library.List_Lexorder" "HOL-Library.Char_ord"
    "HOL-Library.Multiset"
begin

section \<open>Values shared by the fingerprinter and the reconcilers\<close>

text \<open>
  The operator consists of \<^verbatim>\<open>internal/drift\<close> (constants and the two hash functions)
  and \<^verbatim>\<open>internal/controller\<close> (one reconciler for Deployments, one for Services).
  Go strings are byte sequences and are modelled as \<^typ>\<open>string\<close>; \<^verbatim>\<open>int32\<close> is a
  32-bit word read with \<^const>\<open>sint\<close>; a \<^verbatim>\<open>map[string]string\<close> is a partial function,
  wrapped in \<^typ>\<open>'a option\<close> because the code tests maps against \<^verbatim>\<open>nil\<close>.
\<close>

datatype error = NotFound | OtherError string

type_synonym int32 = "32 word"

type_synonym go_map = "(string \<rightharpoonup> string) option"

text \<open>Reading a Go map yields the zero value for a missing key, and a nil map reads as empty.\<close>

definition lookup :: "go_map \<Rightarrow> string \<Rightarrow> string" where
  "lookup m k = (case m of None \<Rightarrow> '''' | Some f \<Rightarrow> (case f k of None \<Rightarrow> '''' | Some v \<Rightarrow> v))"

definition map_len :: "go_map \<Rightarrow> nat" where
  "map_len m = (case m of None \<Rightarrow> 0 | Some f \<Rightarrow> card (dom f))"

subsection \<open>constants.go\<close>

definition LabelEnabled :: string where "LabelEnabled = ''tfdrift.jin.dev/enabled''"
definition AnnExpectedHash :: string where "AnnExpectedHash = ''tfdrift.jin.dev/spec-hash''"
definition AnnLiveHash :: string where "AnnLiveHash = ''tfdrift.jin.dev/live-hash''"
definition AnnDrifted :: string where "AnnDrifted = ''tfdrift.jin.dev/drifted''"
definition AnnLastCheckedAt :: string where "AnnLastCheckedAt = ''tfdrift.jin.dev/last-checked-at''"
definition AnnDriftedAt :: string where "AnnDriftedAt = ''tfdrift.jin.dev/drifted-at''"

section \<open>Library functions the hash functions call\<close>

subsection \<open>strings.TrimSpace\<close>

text \<open>
  \<^verbatim>\<open>strings.TrimSpace\<close> removes leading and trailing white space as Unicode defines it.
  \<open>space_prefix\<close> gives the number of bytes of a white-space code point at the front of
  its argument (0 when there is none): the six ASCII ones, U+0085 and U+00A0 (two bytes),
  and U+1680, U+2000 to U+200A, U+2028, U+2029, U+202F, U+205F, U+3000 (three bytes).
  \<open>space_suffix\<close> is given the reversed string and looks at its end the same way.
\<close>

definition ascii_space :: "nat \<Rightarrow> bool" where
  "ascii_space b = (b = 9 \<or> b = 10 \<or> b = 11 \<or> b = 12 \<or> b = 13 \<or> b = 32)"

definition space3 :: "nat \<Rightarrow> nat \<Rightarrow> nat \<Rightarrow> bool" where
  "space3 b0 b1 b2 =
     ((b0 = 0xE1 \<and> b1 = 0x9A \<and> b2 = 0x80) \<or>
      (b0 = 0xE2 \<and> b1 = 0x80 \<and> ((0x80 \<le> b2 \<and> b2 \<le> 0x8A) \<or> b2 = 0xA8 \<or> b2 = 0xA9 \<or> b2 = 0xAF)) \<or>
      (b0 = 0xE2 \<and> b1 = 0x81 \<and> b2 = 0x9F) \<or>
      (b0 = 0xE3 \<and> b1 = 0x80 \<and> b2 = 0x80))"

definition space2 :: "nat \<Rightarrow> nat \<Rightarrow> bool" where
  "space2 b0 b1 = (b0 = 0xC2 \<and> (b1 = 0x85 \<or> b1 = 0xA0))"

fun space_prefix :: "string \<Rightarrow> nat" where
  "space_prefix [] = 0"
| "space_prefix [a] = (if ascii_space (of_char a) then 1 else 0)"
| "space_prefix [a, b] =
     (if ascii_space (of_char a) then 1 else if space2 (of_char a) (of_char b) then 2 else 0)"
| "space_prefix (a # b # c # r) =
     (if ascii_space (of_char a) then 1
      else if space2 (of_char a) (of_char b) then 2
      else if space3 (of_char a) (of_char b) (of_char c) then 3 else 0)"

fun space_suffix :: "string \<Rightarrow> nat" where
  "space_suffix [] = 0"
| "space_suffix [a] = (if ascii_space (of_char a) then 1 else 0)"
| "space_suffix [b, a] =
     (if ascii_space (of_char b) then 1 else if space2 (of_char a) (of_char b) then 2 else 0)"
| "space_suffix (c # b # a # r) =
     (if ascii_space (of_char c) then 1
      else if space2 (of_char b) (of_char c) then 2
      else if space3 (of_char a) (of_char b) (of_char c) then 3 else 0)"

function trim_front :: "(string \<Rightarrow> nat) \<Rightarrow> string \<Rightarrow> string" where
  "trim_front f s =
     (if f s = 0 \<or> s = [] then s else trim_front f (drop (f s) s))"
  by pat_completeness auto
termination
  by (relation "measure (\<lambda>(f, s). length s)") auto

declare trim_front.simps [simp del]

definition TrimSpace :: "string \<Rightarrow> string" where
  "TrimSpace s = rev (trim_front space_suffix (rev (trim_front space_prefix s)))"

subsection \<open>strconv.Itoa and the JSON encoding of integers\<close>

fun digits :: "nat \<Rightarrow> string" where
  "digits n =
     (if n < 10 then [''0123456789'' ! n] else digits (n div 10) @ [''0123456789'' ! (n mod 10)])"

declare digits.simps [simp del]

definition Itoa :: "int \<Rightarrow> string" where
  "Itoa i = (if i < 0 then CHR ''-'' # digits (nat (- i)) else digits (nat i))"

definition json_int32 :: "int32 \<Rightarrow> string" where
  "json_int32 w = Itoa (sint w)"

subsection \<open>json.Marshal: strings, objects, arrays, maps\<close>

text \<open>
  \<^verbatim>\<open>encoding/json\<close> writes a string between double quotes. It escapes the double quote
  and the backslash with a backslash, the control characters as \<^verbatim>\<open>\b \f \n \r \t\<close> or
  \<^verbatim>\<open>\u00XX\<close>, and (HTML escaping is on for \<^verbatim>\<open>json.Marshal\<close>) the characters
  \<^verbatim>\<open>< > &\<close> as \<^verbatim>\<open>\u003c \u003e \u0026\<close>; every other ASCII byte is copied.
  Bytes from 0x80 on are copied here, which is what the encoder does with well-formed
  UTF-8 other than U+2028 and U+2029; the theorems below do not depend on how a
  byte is escaped.
\<close>

definition hexdigit :: "nat \<Rightarrow> char" where
  "hexdigit n = ''0123456789abcdef'' ! n"

definition escape_byte :: "char \<Rightarrow> string" where
  "escape_byte c =
     (let b = (of_char c :: nat) in
      if b = 0x22 \<or> b = 0x5C then [CHR 0x5C, c]
      else if b = 8 then [CHR 0x5C, CHR ''b'']
      else if b = 12 then [CHR 0x5C, CHR ''f'']
      else if b = 10 then [CHR 0x5C, CHR ''n'']
      else if b = 13 then [CHR 0x5C, CHR ''r'']
      else if b = 9 then [CHR 0x5C, CHR ''t'']
      else if b < 0x20 \<or> b = 0x3C \<or> b = 0x3E \<or> b = 0x26
        then [CHR 0x5C, CHR ''u'', CHR ''0'', CHR ''0'', hexdigit (b div 16), hexdigit (b mod 16)]
      else [c])"

definition json_string :: "string \<Rightarrow> string" where
  "json_string s = [CHR 0x22] @ concat (map escape_byte s) @ [CHR 0x22]"

fun join_comma :: "string list \<Rightarrow> string" where
  "join_comma [] = []"
| "join_comma [x] = x"
| "join_comma (x # y # r) = x @ '','' @ join_comma (y # r)"

text \<open>An object is given as its members in order: the key and the encoded value.\<close>

definition json_member :: "string \<times> string \<Rightarrow> string" where
  "json_member kv = json_string (fst kv) @ '':'' @ snd kv"

definition json_object :: "(string \<times> string) list \<Rightarrow> string" where
  "json_object ms = ''{'' @ join_comma (map json_member ms) @ ''}''"

definition json_array :: "string list \<Rightarrow> string" where
  "json_array xs = ''['' @ join_comma xs @ '']''"

text \<open>A field tagged \<^verbatim>\<open>omitempty\<close> is left out when its value is empty.\<close>

definition omitempty :: "bool \<Rightarrow> string \<times> string \<Rightarrow> (string \<times> string) list" where
  "omitempty is_empty member = (if is_empty then [] else [member])"

text \<open>A map is written as an object with its keys sorted bytewise.\<close>

definition json_map :: "go_map \<Rightarrow> string" where
  "json_map m = json_object (map (\<lambda>k. (k, json_string (lookup m k)))
                    (case m of None \<Rightarrow> [] | Some f \<Rightarrow> sorted_list_of_set (dom f)))"

text \<open>The first member that fails to encode fails the whole encoding.\<close>

fun collect :: "(error + 'a) list \<Rightarrow> error + 'a list" where
  "collect [] = Inr []"
| "collect (x # xs) =
     (case x of Inl e \<Rightarrow> Inl e
      | Inr v \<Rightarrow> (case collect xs of Inl e \<Rightarrow> Inl e | Inr vs \<Rightarrow> Inr (v # vs)))"

subsection \<open>hex.EncodeToString\<close>

definition EncodeToString :: "string \<Rightarrow> string" where
  "EncodeToString bs =
     concat (map (\<lambda>c. [hexdigit (of_char c div 16), hexdigit (of_char c mod 16)]) bs)"

subsection \<open>sort.Slice\<close>

text \<open>
  \<^verbatim>\<open>sort.Slice\<close> sorts a slice of at most 12 elements by insertion: each element in turn
  is swapped towards the front while it is less than its left neighbour. \<open>insert_left\<close>
  does that on the already sorted part held in reverse. Longer slices are sorted by
  pattern-defeating quicksort, whose result is the same whenever no two elements are
  tied under the comparison.
\<close>

fun insert_left :: "('a \<Rightarrow> 'a \<Rightarrow> bool) \<Rightarrow> 'a \<Rightarrow> 'a list \<Rightarrow> 'a list" where
  "insert_left lt x [] = [x]"
| "insert_left lt x (y # ys) = (if lt x y then y # insert_left lt x ys else x # y # ys)"

definition sort_Slice :: "('a \<Rightarrow> 'a \<Rightarrow> bool) \<Rightarrow> 'a list \<Rightarrow> 'a list" where
  "sort_Slice lt xs = rev (foldl (\<lambda>acc x. insert_left lt x acc) [] xs)"

section \<open>The Kubernetes objects, as far as the operator reads them\<close>

text \<open>
  \<^verbatim>\<open>appsv1.DeploymentStrategy\<close> and \<^verbatim>\<open>corev1.ResourceRequirements\<close> are copied into
  the fingerprint whole and only ever handed to \<^verbatim>\<open>json.Marshal\<close>. They are declared
  outside the repository, so such a value is represented by what its encoder returns:
  the JSON text, or the error of a marshaller that fails.
\<close>

type_synonym encoded = "error + string"

datatype EnvVarSource =
    FieldRef string
  | ResourceFieldRef string
  | ConfigMapKeyRef string string
  | SecretKeyRef string string

record EnvVar =
  ev_Name :: string
  ev_Value :: string
  ev_ValueFrom :: "EnvVarSource option"

record ContainerPort =
  cp_Name :: string
  cp_ContainerPort :: int32
  cp_Protocol :: string

record Container =
  c_Name :: string
  c_Image :: string
  c_Env :: "EnvVar list"
  c_Ports :: "ContainerPort list"
  c_Resources :: encoded

text \<open>\<^verbatim>\<open>t.Labels\<close>, \<^verbatim>\<open>t.Annotations\<close> and \<^verbatim>\<open>t.Spec.Containers\<close> of a pod template.\<close>

record PodTemplateSpec =
  pt_Labels :: go_map
  pt_Annotations :: go_map
  pt_Containers :: "Container list"

record DeploymentSpec =
  ds_Replicas :: "int32 option"
  ds_Strategy :: encoded
  ds_Template :: PodTemplateSpec

record Deployment =
  dep_Labels :: go_map
  dep_Annotations :: go_map
  dep_Spec :: DeploymentSpec

datatype IntOrString = IntVal int32 | StrVal string

text \<open>\<^verbatim>\<open>IntOrString.String\<close>: the string itself, or the integer in decimal.\<close>

fun IntOrString_String :: "IntOrString \<Rightarrow> string" where
  "IntOrString_String (StrVal s) = s"
| "IntOrString_String (IntVal i) = Itoa (sint i)"

record ServicePort =
  sp_Name :: string
  sp_Protocol :: string
  sp_Port :: int32
  sp_TargetPort :: IntOrString
  sp_NodePort :: int32

record ServiceSpec =
  ss_Type :: string
  ss_Selector :: go_map
  ss_Ports :: "ServicePort list"

record Service =
  svc_Labels :: go_map
  svc_Annotations :: go_map
  svc_Spec :: ServiceSpec

section \<open>hash.go: the fingerprints\<close>

record EnvVarFingerprint =
  evf_Name :: string
  evf_Value :: string

record ContainerPortFingerprint =
  cpf_Name :: string
  cpf_ContainerPort :: int32
  cpf_Protocol :: string

record ContainerFingerprint =
  cf_Name :: string
  cf_Image :: string
  cf_Env :: "EnvVarFingerprint list"
  cf_Ports :: "ContainerPortFingerprint list"
  cf_Resources :: encoded

record PodTemplateFingerprint =
  ptf_Labels :: go_map
  ptf_Annotations :: go_map
  ptf_Containers :: "ContainerFingerprint list"

record DeploymentFingerprint =
  df_Replicas :: "int32 option"
  df_Strategy :: encoded
  df_Template :: PodTemplateFingerprint

record ServicePortFingerprint =
  spf_Name :: string
  spf_Protocol :: string
  spf_Port :: int32
  spf_TargetPort :: string
  spf_NodePort :: int32

record ServiceFingerprint =
  sf_Type :: string
  sf_Selector :: go_map
  sf_Ports :: "ServicePortFingerprint list"

subsection \<open>Helpers\<close>

definition copyMap :: "go_map \<Rightarrow> go_map" where
  "copyMap m = (case m of None \<Rightarrow> None | Some f \<Rightarrow> Some (\<lambda>k. f k))"

text \<open>\<^verbatim>\<open>canonicalizeMap\<close> overwrites every value by its trimmed form; a nil map has no entry.\<close>

definition canonicalizeMap :: "go_map \<Rightarrow> go_map" where
  "canonicalizeMap m =
     (case m of None \<Rightarrow> None | Some f \<Rightarrow> Some (\<lambda>k. map_option TrimSpace (f k)))"

text \<open>
  \<^verbatim>\<open>hashJSON\<close> receives the outcome of \<^verbatim>\<open>json.Marshal\<close> on its argument. The digest
  \<^verbatim>\<open>sha256.Sum256\<close> is a parameter: the theorems hold for every function in its place.
\<close>

definition hashJSON :: "(string \<Rightarrow> string) \<Rightarrow> error + string \<Rightarrow> error + string" where
  "hashJSON Sum256 marshalled =
     (case marshalled of Inl err \<Rightarrow> Inl err | Inr b \<Rightarrow> Inr (EncodeToString (Sum256 b)))"

subsection \<open>json.Marshal on the fingerprint structures\<close>

text \<open>
  Fields are written in the order of their declaration, under the name of their tag.
  \<^verbatim>\<open>omitempty\<close> drops an empty string, a zero, a nil pointer, and a map or slice of
  length 0; it has no effect on a struct-typed field.
\<close>

definition Marshal_EnvVarFingerprint :: "EnvVarFingerprint \<Rightarrow> string" where
  "Marshal_EnvVarFingerprint e =
     json_object ([(''name'', json_string (evf_Name e))]
       @ omitempty (evf_Value e = '''') (''value'', json_string (evf_Value e)))"

definition Marshal_ContainerPortFingerprint :: "ContainerPortFingerprint \<Rightarrow> string" where
  "Marshal_ContainerPortFingerprint p =
     json_object (omitempty (cpf_Name p = '''') (''name'', json_string (cpf_Name p))
       @ [(''containerPort'', json_int32 (cpf_ContainerPort p))]
       @ omitempty (cpf_Protocol p = '''') (''protocol'', json_string (cpf_Protocol p)))"

definition Marshal_ContainerFingerprint :: "ContainerFingerprint \<Rightarrow> error + string" where
  "Marshal_ContainerFingerprint c =
     (case cf_Resources c of
        Inl err \<Rightarrow> Inl err
      | Inr res \<Rightarrow> Inr (json_object (
          [(''name'', json_string (cf_Name c)), (''image'', json_string (cf_Image c))]
          @ omitempty (cf_Env c = []) (''env'', json_array (map Marshal_EnvVarFingerprint (cf_Env c)))
          @ omitempty (cf_Ports c = [])
              (''ports'', json_array (map Marshal_ContainerPortFingerprint (cf_Ports c)))
          @ [(''resources'', res)])))"

definition Marshal_PodTemplateFingerprint :: "PodTemplateFingerprint \<Rightarrow> error + string" where
  "Marshal_PodTemplateFingerprint t =
     (case collect (map Marshal_ContainerFingerprint (ptf_Containers t)) of
        Inl err \<Rightarrow> Inl err
      | Inr cs \<Rightarrow> Inr (json_object (
          omitempty (map_len (ptf_Labels t) = 0) (''labels'', json_map (ptf_Labels t))
          @ omitempty (map_len (ptf_Annotations t) = 0)
              (''annotations'', json_map (ptf_Annotations t))
          @ [(''containers'', json_array cs)])))"

definition Marshal_DeploymentFingerprint :: "DeploymentFingerprint \<Rightarrow> error + string" where
  "Marshal_DeploymentFingerprint fp =
     (case df_Strategy fp of
        Inl err \<Rightarrow> Inl err
      | Inr strategy \<Rightarrow>
          (case Marshal_PodTemplateFingerprint (df_Template fp) of
             Inl err \<Rightarrow> Inl err
           | Inr template \<Rightarrow> Inr (json_object (
               (case df_Replicas fp of None \<Rightarrow> [] | Some n \<Rightarrow> [(''replicas'', json_int32 n)])
               @ [(''strategy'', strategy), (''template'', template)]))))"

definition Marshal_ServicePortFingerprint :: "ServicePortFingerprint \<Rightarrow> string" where
  "Marshal_ServicePortFingerprint p =
     json_object (omitempty (spf_Name p = '''') (''name'', json_string (spf_Name p))
       @ omitempty (spf_Protocol p = '''') (''protocol'', json_string (spf_Protocol p))
       @ [(''port'', json_int32 (spf_Port p)),
          (''targetPort'', json_string (spf_TargetPort p))]
       @ omitempty (spf_NodePort p = 0) (''nodePort'', json_int32 (spf_NodePort p)))"

definition Marshal_ServiceFingerprint :: "ServiceFingerprint \<Rightarrow> error + string" where
  "Marshal_ServiceFingerprint fp =
     Inr (json_object (
       [(''type'', json_string (sf_Type fp))]
       @ omitempty (map_len (sf_Selector fp) = 0) (''selector'', json_map (sf_Selector fp))
       @ [(''ports'', json_array (map Marshal_ServicePortFingerprint (sf_Ports fp)))]))"

subsection \<open>Deployment hashing\<close>

definition fingerprintEnv :: "EnvVar \<Rightarrow> EnvVarFingerprint" where
  "fingerprintEnv e = \<lparr>evf_Name = ev_Name e, evf_Value = ev_Value e\<rparr>"

definition fingerprintPort :: "ContainerPort \<Rightarrow> ContainerPortFingerprint" where
  "fingerprintPort p =
     \<lparr>cpf_Name = cp_Name p, cpf_ContainerPort = cp_ContainerPort p, cpf_Protocol = cp_Protocol p\<rparr>"

definition fingerprintContainer :: "Container \<Rightarrow> ContainerFingerprint" where
  "fingerprintContainer c =
     \<lparr>cf_Name = c_Name c, cf_Image = c_Image c,
      cf_Env = map fingerprintEnv (c_Env c),
      cf_Ports = map fingerprintPort (c_Ports c),
      cf_Resources = c_Resources c\<rparr>"

definition fingerprintPodTemplate :: "PodTemplateSpec \<Rightarrow> PodTemplateFingerprint" where
  "fingerprintPodTemplate t =
     \<lparr>ptf_Labels = copyMap (pt_Labels t),
      ptf_Annotations = copyMap (pt_Annotations t),
      ptf_Containers = map fingerprintContainer (pt_Containers t)\<rparr>"

text \<open>The three comparison functions handed to \<^verbatim>\<open>sort.Slice\<close> in \<^verbatim>\<open>HashDeployment\<close>.\<close>

definition container_less :: "ContainerFingerprint \<Rightarrow> ContainerFingerprint \<Rightarrow> bool" where
  "container_less a b = (cf_Name a < cf_Name b)"

definition env_less :: "EnvVarFingerprint \<Rightarrow> EnvVarFingerprint \<Rightarrow> bool" where
  "env_less a b = (evf_Name a < evf_Name b)"

definition port_less :: "ContainerPortFingerprint \<Rightarrow> ContainerPortFingerprint \<Rightarrow> bool" where
  "port_less a b =
     (let pa = cpf_ContainerPort a; pb = cpf_ContainerPort b
      in if pa = pb then cpf_Name a < cpf_Name b else sint pa < sint pb)"

definition sortContainer :: "ContainerFingerprint \<Rightarrow> ContainerFingerprint" where
  "sortContainer c =
     c\<lparr>cf_Env := sort_Slice env_less (cf_Env c), cf_Ports := sort_Slice port_less (cf_Ports c)\<rparr>"

text \<open>The fingerprint as it stands when \<^verbatim>\<open>HashDeployment\<close> hands it to \<^verbatim>\<open>hashJSON\<close>.\<close>

definition canonicalDeployment :: "Deployment \<Rightarrow> DeploymentFingerprint" where
  "canonicalDeployment dep =
     (let t = fingerprintPodTemplate (ds_Template (dep_Spec dep));
          t = t\<lparr>ptf_Labels := canonicalizeMap (ptf_Labels t)\<rparr>;
          t = t\<lparr>ptf_Annotations := canonicalizeMap (ptf_Annotations t)\<rparr>;
          t = t\<lparr>ptf_Containers := sort_Slice container_less (ptf_Containers t)\<rparr>;
          t = t\<lparr>ptf_Containers := map sortContainer (ptf_Containers t)\<rparr>
      in \<lparr>df_Replicas = ds_Replicas (dep_Spec dep),
          df_Strategy = ds_Strategy (dep_Spec dep),
          df_Template = t\<rparr>)"

definition HashDeployment :: "(string \<Rightarrow> string) \<Rightarrow> Deployment \<Rightarrow> error + string" where
  "HashDeployment Sum256 dep =
     hashJSON Sum256 (Marshal_DeploymentFingerprint (canonicalDeployment dep))"

subsection \<open>Service hashing\<close>

definition fingerprintServicePort :: "ServicePort \<Rightarrow> ServicePortFingerprint" where
  "fingerprintServicePort p =
     \<lparr>spf_Name = sp_Name p, spf_Protocol = sp_Protocol p, spf_Port = sp_Port p,
      spf_TargetPort = IntOrString_String (sp_TargetPort p), spf_NodePort = sp_NodePort p\<rparr>"

definition serviceport_less :: "ServicePortFingerprint \<Rightarrow> ServicePortFingerprint \<Rightarrow> bool" where
  "serviceport_less a b =
     (if spf_Port a = spf_Port b then spf_Name a < spf_Name b
      else sint (spf_Port a) < sint (spf_Port b))"

definition canonicalService :: "Service \<Rightarrow> ServiceFingerprint" where
  "canonicalService svc =
     (let fp = \<lparr>sf_Type = ss_Type (svc_Spec svc),
                 sf_Selector = copyMap (ss_Selector (svc_Spec svc)),
                 sf_Ports = map fingerprintServicePort (ss_Ports (svc_Spec svc))\<rparr>;
          fp = fp\<lparr>sf_Selector := canonicalizeMap (sf_Selector fp)\<rparr>;
          fp = fp\<lparr>sf_Ports := sort_Slice serviceport_less (sf_Ports fp)\<rparr>
      in fp)"

definition HashService :: "(string \<Rightarrow> string) \<Rightarrow> Service \<Rightarrow> error + string" where
  "HashService Sum256 svc = hashJSON Sum256 (Marshal_ServiceFingerprint (canonicalService svc))"

section \<open>The cluster the reconcilers act on\<close>

text \<open>
  A reconciler reads one object with \<^verbatim>\<open>r.Get\<close>, may record an event with
  \<^verbatim>\<open>r.Recorder.Eventf\<close>, may write a log line, and may send one merge patch with
  \<^verbatim>\<open>r.Patch\<close>. The cluster holds the stored objects and the three outputs in the order
  they were produced. A patch is kept as the server receives it: the annotation keys whose
  value differs between the fetched object and the modified one.
\<close>

type_synonym NamespacedName = "string \<times> string"

type_synonym merge_patch = "string \<rightharpoonup> string option"

record Event =
  evt_Kind :: string
  evt_Object :: NamespacedName
  evt_Type :: string
  evt_Reason :: string
  evt_Message :: string

record cluster =
  deployments :: "NamespacedName \<rightharpoonup> Deployment"
  services :: "NamespacedName \<rightharpoonup> Service"
  patches :: "(string \<times> NamespacedName \<times> merge_patch) list"
  events :: "Event list"
  logs :: "string list list"

text \<open>
  What one invocation meets outside the code: the formatted reading of the clock
  (\<^verbatim>\<open>time.Now().UTC().Format(time.RFC3339)\<close>), and whether the API call fails for a
  reason of its own (transport, conflict), apart from the object being absent.
\<close>

record invocation =
  now :: string
  get_fault :: "error option"
  patch_fault :: "error option"

definition client_Get :: "error option \<Rightarrow> (NamespacedName \<rightharpoonup> 'obj) \<Rightarrow> NamespacedName \<Rightarrow> error + 'obj" where
  "client_Get fault store key =
     (case fault of
        Some err \<Rightarrow> Inl err
      | None \<Rightarrow> (case store key of None \<Rightarrow> Inl NotFound | Some obj \<Rightarrow> Inr obj))"

definition IsNotFound :: "error \<Rightarrow> bool" where
  "IsNotFound err = (err = NotFound)"

definition entries :: "go_map \<Rightarrow> (string \<rightharpoonup> string)" where
  "entries m = (case m of None \<Rightarrow> Map.empty | Some f \<Rightarrow> f)"

text \<open>\<^verbatim>\<open>client.MergeFrom(orig)\<close>: the keys to set (or to delete) to get from one map to the other.\<close>

definition MergeFrom :: "go_map \<Rightarrow> go_map \<Rightarrow> merge_patch" where
  "MergeFrom orig modified =
     (\<lambda>k. if entries modified k = entries orig k then None else Some (entries modified k))"

text \<open>The server applies a patch to the annotations it holds; an empty patch changes nothing.\<close>

definition apply_patch :: "merge_patch \<Rightarrow> go_map \<Rightarrow> go_map" where
  "apply_patch p cur =
     (if p = Map.empty then cur
      else Some (\<lambda>k. case p k of None \<Rightarrow> entries cur k | Some v \<Rightarrow> v))"

definition Sprintf_drift :: "string \<Rightarrow> string \<Rightarrow> string \<Rightarrow> string" where
  "Sprintf_drift kind expected liveHash =
     kind @ '' drift detected: expectedHash='' @ expected @ '' liveHash='' @ liveHash"

definition drift_event :: "string \<Rightarrow> NamespacedName \<Rightarrow> string \<Rightarrow> string \<Rightarrow> Event" where
  "drift_event kind req expected liveHash =
     \<lparr>evt_Kind = kind, evt_Object = req, evt_Type = ''Warning'',
      evt_Reason = ''TerraformDriftDetected'',
      evt_Message = Sprintf_drift kind expected liveHash\<rparr>"

definition drift_log :: "string \<Rightarrow> string \<Rightarrow> string list" where
  "drift_log expected liveHash = [''drift detected'', ''expected'', expected, ''live'', liveHash]"

section \<open>deployment\_controller.go\<close>

definition Deployment_patchAnnotations ::
  "invocation \<Rightarrow> cluster \<Rightarrow> NamespacedName \<Rightarrow> Deployment \<Rightarrow> (string \<rightharpoonup> string)
     \<Rightarrow> error option \<times> cluster" where
  "Deployment_patchAnnotations c w req dep kv =
     (let orig = dep;
          dep = (if dep_Annotations dep = None then dep\<lparr>dep_Annotations := Some Map.empty\<rparr> else dep);
          dep = dep\<lparr>dep_Annotations := Some (entries (dep_Annotations dep) ++ kv)\<rparr>;
          p = MergeFrom (dep_Annotations orig) (dep_Annotations dep);
          w = w\<lparr>patches := patches w @ [(''Deployment'', req, p)]\<rparr>
      in case patch_fault c of
           Some err \<Rightarrow> (Some err, w)
         | None \<Rightarrow>
             (case deployments w req of
                None \<Rightarrow> (Some NotFound, w)
              | Some cur \<Rightarrow>
                  (None, w\<lparr>deployments := (deployments w)
                     (req \<mapsto> cur\<lparr>dep_Annotations := apply_patch p (dep_Annotations cur)\<rparr>)\<rparr>)))"

text \<open>
  \<^verbatim>\<open>drift.HashDeployment\<close> is the first argument, so that a statement can say what the
  reconciler does whatever that call would return.
\<close>

definition DeploymentReconciler_Reconcile ::
  "(Deployment \<Rightarrow> error + string) \<Rightarrow> invocation \<Rightarrow> cluster \<Rightarrow> NamespacedName
     \<Rightarrow> error option \<times> cluster" where
  "DeploymentReconciler_Reconcile hashDeployment c w req =
     (case client_Get (get_fault c) (deployments w) req of
        Inl err \<Rightarrow> (if IsNotFound err then (None, w) else (Some err, w))
      | Inr dep \<Rightarrow>
          if dep_Labels dep = None \<or> lookup (dep_Labels dep) LabelEnabled \<noteq> ''true''
          then (None, w)
          else
            let expected = (if dep_Annotations dep \<noteq> None
                            then lookup (dep_Annotations dep) AnnExpectedHash else '''')
            in if expected = ''''
               then Deployment_patchAnnotations c w req dep [AnnLastCheckedAt \<mapsto> now c]
               else
                 (case hashDeployment dep of
                    Inl err \<Rightarrow> (Some err, w)
                  | Inr liveHash \<Rightarrow>
                      let patch = [AnnLiveHash \<mapsto> liveHash, AnnLastCheckedAt \<mapsto> now c]
                      in if liveHash \<noteq> expected
                         then
                           let patch = patch(AnnDrifted \<mapsto> ''true'');
                               patch = (if dep_Annotations dep = None
                                          \<or> lookup (dep_Annotations dep) AnnDriftedAt = ''''
                                        then patch(AnnDriftedAt \<mapsto> now c) else patch);
                               w = w\<lparr>events := events w
                                        @ [drift_event ''Deployment'' req expected liveHash]\<rparr>;
                               w = w\<lparr>logs := logs w @ [drift_log expected liveHash]\<rparr>
                           in Deployment_patchAnnotations c w req dep patch
                         else
                           Deployment_patchAnnotations c w req dep (patch(AnnDrifted \<mapsto> ''false''))))"

section \<open>The Service controller\<close>

definition Service_patchAnnotations ::
  "invocation \<Rightarrow> cluster \<Rightarrow> NamespacedName \<Rightarrow> Service \<Rightarrow> (string \<rightharpoonup> string)
     \<Rightarrow> error option \<times> cluster" where
  "Service_patchAnnotations c w req svc kv =
     (let orig = svc;
          svc = (if svc_Annotations svc = None then svc\<lparr>svc_Annotations := Some Map.empty\<rparr> else svc);
          svc = svc\<lparr>svc_Annotations := Some (entries (svc_Annotations svc) ++ kv)\<rparr>;
          p = MergeFrom (svc_Annotations orig) (svc_Annotations svc);
          w = w\<lparr>patches := patches w @ [(''Service'', req, p)]\<rparr>
      in case patch_fault c of
           Some err \<Rightarrow> (Some err, w)
         | None \<Rightarrow>
             (case services w req of
                None \<Rightarrow> (Some NotFound, w)
              | Some cur \<Rightarrow>
                  (None, w\<lparr>services := (services w)
                     (req \<mapsto> cur\<lparr>svc_Annotations := apply_patch p (svc_Annotations cur)\<rparr>)\<rparr>)))"

definition ServiceReconciler_Reconcile ::
  "(Service \<Rightarrow> error + string) \<Rightarrow> invocation \<Rightarrow> cluster \<Rightarrow> NamespacedName
     \<Rightarrow> error option \<times> cluster" where
  "ServiceReconciler_Reconcile hashService c w req =
     (case client_Get (get_fault c) (services w) req of
        Inl err \<Rightarrow> (if IsNotFound err then (None, w) else (Some err, w))
      | Inr svc \<Rightarrow>
          if svc_Labels svc = None \<or> lookup (svc_Labels svc) LabelEnabled \<noteq> ''true''
          then (None, w)
          else
            let expected = (if svc_Annotations svc \<noteq> None
                            then lookup (svc_Annotations svc) AnnExpectedHash else '''')
            in if expected = ''''
               then Service_patchAnnotations c w req svc [AnnLastCheckedAt \<mapsto> now c]
               else
                 (case hashService svc of
                    Inl err \<Rightarrow> (Some err, w)
                  | Inr liveHash \<Rightarrow>
                      let patch = [AnnLiveHash \<mapsto> liveHash, AnnLastCheckedAt \<mapsto> now c]
                      in if liveHash \<noteq> expected
                         then
                           let patch = patch(AnnDrifted \<mapsto> ''true'');
                               patch = (if svc_Annotations svc = None
                                          \<or> lookup (svc_Annotations svc) AnnDriftedAt = ''''
                                        then patch(AnnDriftedAt \<mapsto> now c) else patch);
                               w = w\<lparr>events := events w
                                        @ [drift_event ''Service'' req expected liveHash]\<rparr>;
                               w = w\<lparr>logs := logs w @ [drift_log expected liveHash]\<rparr>
                           in Service_patchAnnotations c w req svc patch
                         else
                           Service_patchAnnotations c w req svc (patch(AnnDrifted \<mapsto> ''false''))))"

section \<open>Reading what a reconciler did\<close>

text \<open>The annotation stored under a key on the object of a request, if there is one.\<close>

definition deployment_annotation :: "cluster \<Rightarrow> NamespacedName \<Rightarrow> string \<Rightarrow> string option" where
  "deployment_annotation w req k =
     (case deployments w req of None \<Rightarrow> None | Some d \<Rightarrow> entries (dep_Annotations d) k)"

definition service_annotation :: "cluster \<Rightarrow> NamespacedName \<Rightarrow> string \<Rightarrow> string option" where
  "service_annotation w req k =
     (case services w req of None \<Rightarrow> None | Some s \<Rightarrow> entries (svc_Annotations s) k)"

text \<open>
  The map \<^verbatim>\<open>patch\<close> as \<^verbatim>\<open>Reconcile\<close> hands it to \<^verbatim>\<open>patchAnnotations\<close> on the path
  that hashes, as a function of the annotations read, the two hashes and the clock reading.
\<close>

definition staged :: "go_map \<Rightarrow> string \<Rightarrow> string \<Rightarrow> string \<Rightarrow> (string \<rightharpoonup> string)" where
  "staged ann expected liveHash t =
     (if liveHash \<noteq> expected
      then (if lookup ann AnnDriftedAt = ''''
            then [AnnLiveHash \<mapsto> liveHash, AnnLastCheckedAt \<mapsto> t, AnnDrifted \<mapsto> ''true'',
                  AnnDriftedAt \<mapsto> t]
            else [AnnLiveHash \<mapsto> liveHash, AnnLastCheckedAt \<mapsto> t, AnnDrifted \<mapsto> ''true''])
      else [AnnLiveHash \<mapsto> liveHash, AnnLastCheckedAt \<mapsto> t, AnnDrifted \<mapsto> ''false''])"

text \<open>
  The condition under which \<^verbatim>\<open>Reconcile\<close> reaches \<^verbatim>\<open>Recorder.Eventf\<close>, from the labels
  and annotations of the object and the outcome of hashing it: the expected and the live
  hash of the event, or nothing.
\<close>

definition drift_seen :: "go_map \<Rightarrow> go_map \<Rightarrow> error + string \<Rightarrow> (string \<times> string) option" where
  "drift_seen labels ann hashed =
     (if lookup labels LabelEnabled \<noteq> ''true'' \<or> lookup ann AnnExpectedHash = '''' then None
      else (case hashed of
              Inl err \<Rightarrow> None
            | Inr liveHash \<Rightarrow>
                if liveHash \<noteq> lookup ann AnnExpectedHash
                then Some (lookup ann AnnExpectedHash, liveHash) else None))"

text \<open>
  The condition under which \<^verbatim>\<open>Reconcile\<close> reaches \<^verbatim>\<open>patchAnnotations\<close> on an object it
  has fetched: the object is opted in, and either it has no baseline or hashing it gave no
  error.
\<close>

definition writes_back :: "go_map \<Rightarrow> go_map \<Rightarrow> error + string \<Rightarrow> bool" where
  "writes_back labels ann hashed =
     (lookup labels LabelEnabled = ''true''
      \<and> (lookup ann AnnExpectedHash = '''' \<or> (case hashed of Inl err \<Rightarrow> False | Inr liveHash \<Rightarrow> True)))"

text \<open>The deployment with every \<^verbatim>\<open>valueFrom\<close> reference of its environment variables cleared.\<close>

definition without_ValueFrom :: "Deployment \<Rightarrow> Deployment" where
  "without_ValueFrom d =
     d\<lparr>dep_Spec := (dep_Spec d)\<lparr>ds_Template := (ds_Template (dep_Spec d))\<lparr>pt_Containers :=
         map (\<lambda>c. c\<lparr>c_Env := map (\<lambda>e. e\<lparr>ev_ValueFrom := None\<rparr>) (c_Env c)\<rparr>)
           (pt_Containers (ds_Template (dep_Spec d)))\<rparr>\<rparr>\<rparr>"

text \<open>The length of the members of a JSON object, each with the comma or brace after it.\<close>

definition member_size :: "(string \<times> string) list \<Rightarrow> nat" where
  "member_size ms = sum_list (map (\<lambda>x. Suc (length (json_member x))) ms)"

text \<open>
  A comparison has no ties on a set when it is a strict order there in which two different
  elements are always comparable: sorting by it then has one result only.
\<close>

definition tie_free :: "('a \<Rightarrow> 'a \<Rightarrow> bool) \<Rightarrow> 'a set \<Rightarrow> bool" where
  "tie_free lt A =
     ((\<forall>a\<in>A. \<forall>b\<in>A. lt a b \<longrightarrow> \<not> lt b a)
      \<and> (\<forall>a\<in>A. \<forall>b\<in>A. \<forall>c\<in>A. lt a b \<longrightarrow> lt b c \<longrightarrow> lt a c)
      \<and> (\<forall>a\<in>A. \<forall>b\<in>A. a \<noteq> b \<longrightarrow> lt a b \<or> lt b a))"

text \<open>
  Two containers that differ only in the order of their environment variables and of their
  ports; a container in which no two variables share a name and no two ports share both
  number and name.
\<close>

definition reordered_inside :: "Container \<Rightarrow> Container \<Rightarrow> bool" where
  "reordered_inside c c' =
     (c_Name c = c_Name c' \<and> c_Image c = c_Image c' \<and> c_Resources c = c_Resources c'
      \<and> mset (c_Env c) = mset (c_Env c') \<and> mset (c_Ports c) = mset (c_Ports c'))"

definition untied :: "Container \<Rightarrow> bool" where
  "untied c =
     (inj_on ev_Name (set (c_Env c))
      \<and> inj_on (\<lambda>p. (cp_ContainerPort p, cp_Name p)) (set (c_Ports c)))"

section \<open>Concrete objects used to exercise the theorems\<close>

definition quiet :: "string \<Rightarrow> invocation" where
  "quiet t = \<lparr>now = t, get_fault = None, patch_fault = None\<rparr>"

definition web_key :: NamespacedName where
  "web_key = (''default'', ''web'')"

definition opted_in :: go_map where
  "opted_in = Some [LabelEnabled \<mapsto> ''true'']"

definition app :: Container where
  "app = \<lparr>c_Name = ''app'', c_Image = ''nginx:1.25'', c_Env = [], c_Ports = [],
           c_Resources = Inr ''{}''\<rparr>"

definition web_spec :: "Container list \<Rightarrow> DeploymentSpec" where
  "web_spec cs = \<lparr>ds_Replicas = Some 2, ds_Strategy = Inr ''{}'',
     ds_Template = \<lparr>pt_Labels = None, pt_Annotations = None, pt_Containers = cs\<rparr>\<rparr>"

definition web :: "go_map \<Rightarrow> go_map \<Rightarrow> Deployment" where
  "web labels anns = \<lparr>dep_Labels = labels, dep_Annotations = anns, dep_Spec = web_spec [app]\<rparr>"

definition dns_port :: "string \<Rightarrow> ServicePort" where
  "dns_port proto = \<lparr>sp_Name = '''', sp_Protocol = proto, sp_Port = 53,
     sp_TargetPort = IntVal 53, sp_NodePort = 0\<rparr>"

definition dns :: "go_map \<Rightarrow> go_map \<Rightarrow> Service" where
  "dns labels anns = \<lparr>svc_Labels = labels, svc_Annotations = anns,
     svc_Spec = \<lparr>ss_Type = ''ClusterIP'', ss_Selector = None, ss_Ports = [dns_port ''UDP'']\<rparr>\<rparr>"

definition no_objects :: cluster where
  "no_objects = \<lparr>deployments = Map.empty, services = Map.empty, patches = [], events = [],
     logs = []\<rparr>"

definition cluster_of :: "Deployment \<Rightarrow> Service \<Rightarrow> cluster" where
  "cluster_of d s = \<lparr>deployments = [web_key \<mapsto> d], services = [web_key \<mapsto> s], patches = [],
     events = [], logs = []\<rparr>"

text \<open>
  To run the hash functions on these objects the digest is replaced by a function that
  returns its input, so that the hash is the canonical JSON text in hexadecimal.
\<close>

definition plain :: "string \<Rightarrow> string" where
  "plain b = b"

definition hash_of :: "error + string \<Rightarrow> string" where
  "hash_of r = (case r of Inl err \<Rightarrow> [] | Inr h \<Rightarrow> h)"

text \<open>A change from outside: the deployment is scaled to \<open>n\<close> replicas.\<close>

definition scaled :: "int32 \<Rightarrow> Deployment \<Rightarrow> Deployment" where
  "scaled n d = d\<lparr>dep_Spec := (dep_Spec d)\<lparr>ds_Replicas := Some n\<rparr>\<rparr>"

definition scale :: "int32 \<Rightarrow> cluster \<Rightarrow> cluster" where
  "scale n w =
     (case deployments w web_key of
        None \<Rightarrow> w
      | Some d \<Rightarrow> w\<lparr>deployments := (deployments w)(web_key \<mapsto> scaled n d)\<rparr>)"

text \<open>The same deployment with no replica count.\<close>

definition unscaled :: "Deployment \<Rightarrow> Deployment" where
  "unscaled d = d\<lparr>dep_Spec := (dep_Spec d)\<lparr>ds_Replicas := None\<rparr>\<rparr>"

text \<open>
  The deployment is declared with two replicas and annotated with the hash of that
  specification; the service carries a baseline that its specification does not hash to.
\<close>

definition baseline :: string where
  "baseline = hash_of (HashDeployment plain (web None None))"

definition scaled_hash :: string where
  "scaled_hash = hash_of (HashDeployment plain (scaled 3 (web None None)))"

definition dns_hash :: string where
  "dns_hash = hash_of (HashService plain (dns None None))"

definition declared :: cluster where
  "declared = cluster_of (web opted_in (Some [AnnExpectedHash \<mapsto> baseline]))
                (dns opted_in (Some [AnnExpectedHash \<mapsto> ''abc123'']))"

definition reconcile_web :: "string \<Rightarrow> cluster \<Rightarrow> cluster" where
  "reconcile_web t w =
     snd (DeploymentReconciler_Reconcile (HashDeployment plain) (quiet t) w web_key)"

definition reconcile_dns :: "string \<Rightarrow> cluster \<Rightarrow> cluster" where
  "reconcile_dns t w =
     snd (ServiceReconciler_Reconcile (HashService plain) (quiet t) w web_key)"

text \<open>
  Three reconciliations, each after a change from outside: scaled to three replicas at
  10:00, back to two at 11:00, to three again at 12:00.
\<close>

definition episode1 :: cluster where
  "episode1 = reconcile_web ''2026-01-01T10:00:00Z'' (scale 3 declared)"

definition episode2 :: cluster where
  "episode2 = reconcile_web ''2026-01-01T11:00:00Z'' (scale 2 episode1)"

definition episode3 :: cluster where
  "episode3 = reconcile_web ''2026-01-01T12:00:00Z'' (scale 3 episode2)"

text \<open>The deployment with given containers, and an environment variable taken from a secret.\<close>

definition web_with :: "Container list \<Rightarrow> Deployment" where
  "web_with cs = \<lparr>dep_Labels = None, dep_Annotations = None, dep_Spec = web_spec cs\<rparr>"

definition secret_env :: "string \<Rightarrow> EnvVar" where
  "secret_env name = \<lparr>ev_Name = name, ev_Value = '''',
     ev_ValueFrom = Some (SecretKeyRef ''db'' ''password'')\<rparr>"

text \<open>The deployment with given template labels and annotations; the service with a given selector.\<close>

definition web_template :: "go_map \<Rightarrow> go_map \<Rightarrow> Deployment" where
  "web_template labels anns =
     \<lparr>dep_Labels = None, dep_Annotations = None,
      dep_Spec = \<lparr>ds_Replicas = Some 2, ds_Strategy = Inr ''{}'',
        ds_Template = \<lparr>pt_Labels = labels, pt_Annotations = anns, pt_Containers = [app]\<rparr>\<rparr>\<rparr>"

definition dns_selecting :: "go_map \<Rightarrow> Service" where
  "dns_selecting sel =
     \<lparr>svc_Labels = None, svc_Annotations = None,
      svc_Spec = \<lparr>ss_Type = ''ClusterIP'', ss_Selector = sel, ss_Ports = [dns_port ''UDP'']\<rparr>\<rparr>"

text \<open>A container port 53 with no name, as DNS servers declare it for UDP and for TCP.\<close>

definition port53 :: "string \<Rightarrow> ContainerPort" where
  "port53 proto = \<lparr>cp_Name = '''', cp_ContainerPort = 53, cp_Protocol = proto\<rparr>"

section \<open>Facts about the helpers\<close>

lemma entries_simps [simp]: "entries None = Map.empty" "entries (Some f) = f"
  by (simp_all add: entries_def)

lemma lookup_simps [simp]:
  "lookup None k = []" "lookup (Some f) k = (case f k of None \<Rightarrow> [] | Some v \<Rightarrow> v)"
  by (simp_all add: lookup_def)

lemma keys_distinct:
  "distinct [AnnExpectedHash, AnnLiveHash, AnnDrifted, AnnLastCheckedAt, AnnDriftedAt]"
  by (simp add: AnnExpectedHash_def AnnLiveHash_def AnnDrifted_def AnnLastCheckedAt_def
      AnnDriftedAt_def)

lemma keys_neq [simp]:
  "AnnExpectedHash \<noteq> AnnLiveHash" "AnnExpectedHash \<noteq> AnnDrifted"
  "AnnExpectedHash \<noteq> AnnLastCheckedAt" "AnnExpectedHash \<noteq> AnnDriftedAt"
  "AnnLiveHash \<noteq> AnnExpectedHash" "AnnLiveHash \<noteq> AnnDrifted"
  "AnnLiveHash \<noteq> AnnLastCheckedAt" "AnnLiveHash \<noteq> AnnDriftedAt"
  "AnnDrifted \<noteq> AnnExpectedHash" "AnnDrifted \<noteq> AnnLiveHash"
  "AnnDrifted \<noteq> AnnLastCheckedAt" "AnnDrifted \<noteq> AnnDriftedAt"
  "AnnLastCheckedAt \<noteq> AnnExpectedHash" "AnnLastCheckedAt \<noteq> AnnLiveHash"
  "AnnLastCheckedAt \<noteq> AnnDrifted" "AnnLastCheckedAt \<noteq> AnnDriftedAt"
  "AnnDriftedAt \<noteq> AnnExpectedHash" "AnnDriftedAt \<noteq> AnnLiveHash"
  "AnnDriftedAt \<noteq> AnnDrifted" "AnnDriftedAt \<noteq> AnnLastCheckedAt"
  using keys_distinct by auto

subsection \<open>What a patch leaves in the store\<close>

lemma MergeFrom_fill:
  "(\<lambda>k. case MergeFrom a (Some m) k of None \<Rightarrow> entries a k | Some v \<Rightarrow> v) = m"
  by (rule ext) (simp add: MergeFrom_def)

lemma apply_MergeFrom:
  assumes "kv \<noteq> Map.empty"
  shows "apply_patch (MergeFrom a (Some (entries a ++ kv))) a = Some (entries a ++ kv)"
proof (cases "MergeFrom a (Some (entries a ++ kv)) = Map.empty")
  case True
  then have eq: "\<And>k. (entries a ++ kv) k = entries a k"
    by (auto simp: MergeFrom_def fun_eq_iff split: if_splits)
  from assms obtain k v where "kv k = Some v" by (auto simp: fun_eq_iff)
  then have "entries a k = Some v" using eq[of k] by (simp add: map_add_def)
  then obtain f where a: "a = Some f" by (cases a) auto
  have "entries a ++ kv = f" using eq a by (auto simp: fun_eq_iff)
  with True a show ?thesis by (simp add: apply_patch_def)
next
  case False
  then show ?thesis
    by (simp add: apply_patch_def MergeFrom_fill)
qed

lemma patch_only_key: "dom (MergeFrom a (Some ((entries a)(k \<mapsto> v)))) \<subseteq> {k}"
  by (auto simp: MergeFrom_def split: if_splits)

lemma Deployment_patchAnnotations_eq:
  assumes "deployments w req = Some dep" "kv \<noteq> Map.empty"
  shows "Deployment_patchAnnotations c w req dep kv =
     (patch_fault c,
      w\<lparr>patches := patches w @ [(''Deployment'', req,
            MergeFrom (dep_Annotations dep) (Some (entries (dep_Annotations dep) ++ kv)))],
        deployments := (if patch_fault c = None
            then (deployments w)(req \<mapsto>
                   dep\<lparr>dep_Annotations := Some (entries (dep_Annotations dep) ++ kv)\<rparr>)
            else deployments w)\<rparr>)"
  using assms apply_MergeFrom[OF assms(2), of "dep_Annotations dep"]
  by (cases "patch_fault c") (auto simp: Deployment_patchAnnotations_def Let_def)

lemma Service_patchAnnotations_eq:
  assumes "services w req = Some svc" "kv \<noteq> Map.empty"
  shows "Service_patchAnnotations c w req svc kv =
     (patch_fault c,
      w\<lparr>patches := patches w @ [(''Service'', req,
            MergeFrom (svc_Annotations svc) (Some (entries (svc_Annotations svc) ++ kv)))],
        services := (if patch_fault c = None
            then (services w)(req \<mapsto>
                   svc\<lparr>svc_Annotations := Some (entries (svc_Annotations svc) ++ kv)\<rparr>)
            else services w)\<rparr>)"
  using assms apply_MergeFrom[OF assms(2), of "svc_Annotations svc"]
  by (cases "patch_fault c") (auto simp: Service_patchAnnotations_def Let_def)

subsection \<open>The path without a baseline\<close>

lemma no_baseline_expected:
  "(\<forall>a. ann = Some a \<longrightarrow> a AnnExpectedHash = None \<or> a AnnExpectedHash = Some [])
   \<Longrightarrow> (if ann \<noteq> None then lookup ann AnnExpectedHash else []) = []"
  by (cases ann) (auto split: option.splits)

lemma Deployment_no_baseline:
  assumes "deployments w req = Some dep" "get_fault c = None"
    "dep_Labels dep = Some l" "l LabelEnabled = Some ''true''"
    "\<forall>a. dep_Annotations dep = Some a
        \<longrightarrow> a AnnExpectedHash = None \<or> a AnnExpectedHash = Some []"
  shows "DeploymentReconciler_Reconcile hashd c w req =
     (patch_fault c,
      w\<lparr>patches := patches w @ [(''Deployment'', req, MergeFrom (dep_Annotations dep)
            (Some ((entries (dep_Annotations dep))(AnnLastCheckedAt \<mapsto> now c))))],
        deployments := (if patch_fault c = None
          then (deployments w)(req \<mapsto> dep\<lparr>dep_Annotations :=
                 Some ((entries (dep_Annotations dep))(AnnLastCheckedAt \<mapsto> now c))\<rparr>)
          else deployments w)\<rparr>)"
proof -
  have kv: "[AnnLastCheckedAt \<mapsto> now c] \<noteq> Map.empty" by simp
  show ?thesis
    using assms(1-4) no_baseline_expected[OF assms(5)]
    by (simp add: DeploymentReconciler_Reconcile_def client_Get_def
        Deployment_patchAnnotations_eq[OF assms(1) kv])
qed

lemma Service_no_baseline:
  assumes "services w req = Some svc" "get_fault c = None"
    "svc_Labels svc = Some l" "l LabelEnabled = Some ''true''"
    "\<forall>a. svc_Annotations svc = Some a
        \<longrightarrow> a AnnExpectedHash = None \<or> a AnnExpectedHash = Some []"
  shows "ServiceReconciler_Reconcile hashs c w req =
     (patch_fault c,
      w\<lparr>patches := patches w @ [(''Service'', req, MergeFrom (svc_Annotations svc)
            (Some ((entries (svc_Annotations svc))(AnnLastCheckedAt \<mapsto> now c))))],
        services := (if patch_fault c = None
          then (services w)(req \<mapsto> svc\<lparr>svc_Annotations :=
                 Some ((entries (svc_Annotations svc))(AnnLastCheckedAt \<mapsto> now c))\<rparr>)
          else services w)\<rparr>)"
proof -
  have kv: "[AnnLastCheckedAt \<mapsto> now c] \<noteq> Map.empty" by simp
  show ?thesis
    using assms(1-4) no_baseline_expected[OF assms(5)]
    by (simp add: ServiceReconciler_Reconcile_def client_Get_def
        Service_patchAnnotations_eq[OF assms(1) kv])
qed

section \<open>The reconcilers: the paths that end early\<close>

text \<open>
  Claim C9. When fetching the object reports that it is not found, either reconciler
  returns success and leaves the cluster as it was: no patch is sent, no event recorded,
  nothing logged, and the outcome is the same whatever the hash function would return.
\<close>

theorem not_found_is_success:
  "(client_Get (get_fault c) (deployments w) req = Inl NotFound
      \<longrightarrow> DeploymentReconciler_Reconcile hashd c w req = (None, w))
   \<and> (client_Get (get_fault c) (services w) req = Inl NotFound
      \<longrightarrow> ServiceReconciler_Reconcile hashs c w req = (None, w))"
  by (simp add: DeploymentReconciler_Reconcile_def ServiceReconciler_Reconcile_def IsNotFound_def)

theorem not_found_is_success_witness:
  "client_Get (get_fault (quiet ''t1'')) (deployments no_objects) web_key = Inl NotFound
   \<and> DeploymentReconciler_Reconcile (HashDeployment id) (quiet ''t1'') no_objects web_key
       = (None, no_objects)
   \<and> client_Get (get_fault (quiet ''t1'')) (services no_objects) web_key = Inl NotFound
   \<and> ServiceReconciler_Reconcile (HashService id) (quiet ''t1'') no_objects web_key
       = (None, no_objects)"
  using not_found_is_success[of "quiet ''t1''" no_objects web_key "HashDeployment id"
      "HashService id"]
  by (simp add: client_Get_def quiet_def no_objects_def)

text \<open>
  Claim C6. An object whose labels are nil, or lack the opt-in label, or carry it with any
  value other than \<open>true\<close>, is left alone: the reconciler returns success and the
  cluster is unchanged (no patch, no event), whatever the annotations hold and whatever
  the hash function would return, so the hash of the object plays no part.
\<close>

theorem opt_out_short_circuit:
  "(deployments w req = Some dep \<and> get_fault c = None
      \<and> (\<forall>l. dep_Labels dep = Some l \<longrightarrow> l LabelEnabled \<noteq> Some ''true'')
      \<longrightarrow> DeploymentReconciler_Reconcile hashd c w req = (None, w))
   \<and> (services w req = Some svc \<and> get_fault c = None
      \<and> (\<forall>l. svc_Labels svc = Some l \<longrightarrow> l LabelEnabled \<noteq> Some ''true'')
      \<longrightarrow> ServiceReconciler_Reconcile hashs c w req = (None, w))"
  by (auto simp: DeploymentReconciler_Reconcile_def ServiceReconciler_Reconcile_def
      client_Get_def split: option.splits)

theorem opt_out_short_circuit_witness:
  "dep_Labels (web (Some [LabelEnabled \<mapsto> ''True'']) (Some [AnnExpectedHash \<mapsto> ''abc123'']))
       = Some [LabelEnabled \<mapsto> ''True'']
   \<and> DeploymentReconciler_Reconcile (HashDeployment id) (quiet ''t1'')
        (cluster_of (web (Some [LabelEnabled \<mapsto> ''True'']) (Some [AnnExpectedHash \<mapsto> ''abc123'']))
           (dns None None)) web_key
       = (None, cluster_of (web (Some [LabelEnabled \<mapsto> ''True''])
             (Some [AnnExpectedHash \<mapsto> ''abc123''])) (dns None None))
   \<and> svc_Labels (dns None None) = None
   \<and> ServiceReconciler_Reconcile (HashService id) (quiet ''t1'')
        (cluster_of (web (Some [LabelEnabled \<mapsto> ''True'']) (Some [AnnExpectedHash \<mapsto> ''abc123'']))
           (dns None None)) web_key
       = (None, cluster_of (web (Some [LabelEnabled \<mapsto> ''True''])
             (Some [AnnExpectedHash \<mapsto> ''abc123''])) (dns None None))"
  using opt_out_short_circuit[of
      "cluster_of (web (Some [LabelEnabled \<mapsto> ''True'']) (Some [AnnExpectedHash \<mapsto> ''abc123'']))
         (dns None None)"
      web_key
      "web (Some [LabelEnabled \<mapsto> ''True'']) (Some [AnnExpectedHash \<mapsto> ''abc123''])"
      "quiet ''t1''" "HashDeployment id" "dns None None" "HashService id"]
  by (simp add: cluster_of_def quiet_def web_def dns_def)

text \<open>
  Claim C7. For an opted-in object that has no expected-hash annotation (the annotations
  are nil or lack the key), the reconciler sends one patch, which can only set
  last-checked-at, and returns what that patch returns. When the patch succeeds the stored
  annotations are the old ones with last-checked-at set to the clock reading, so drifted,
  live-hash and drifted-at are as before; events and logs are untouched; and the outcome
  does not depend on the hash function.
\<close>

theorem no_baseline_writes_last_checked_only:
  "(deployments w req = Some dep \<and> get_fault c = None
      \<and> dep_Labels dep = Some l \<and> l LabelEnabled = Some ''true''
      \<and> (\<forall>a. dep_Annotations dep = Some a \<longrightarrow> a AnnExpectedHash = None)
    \<longrightarrow> DeploymentReconciler_Reconcile hashd c w req =
         (patch_fault c,
          w\<lparr>patches := patches w @ [(''Deployment'', req, MergeFrom (dep_Annotations dep)
                (Some ((entries (dep_Annotations dep))(AnnLastCheckedAt \<mapsto> now c))))],
            deployments := (if patch_fault c = None
              then (deployments w)(req \<mapsto> dep\<lparr>dep_Annotations :=
                     Some ((entries (dep_Annotations dep))(AnnLastCheckedAt \<mapsto> now c))\<rparr>)
              else deployments w)\<rparr>)
       \<and> dom (MergeFrom (dep_Annotations dep)
                (Some ((entries (dep_Annotations dep))(AnnLastCheckedAt \<mapsto> now c))))
            \<subseteq> {AnnLastCheckedAt})
   \<and> (services w req = Some svc \<and> get_fault c = None
      \<and> svc_Labels svc = Some l' \<and> l' LabelEnabled = Some ''true''
      \<and> (\<forall>a. svc_Annotations svc = Some a \<longrightarrow> a AnnExpectedHash = None)
    \<longrightarrow> ServiceReconciler_Reconcile hashs c w req =
         (patch_fault c,
          w\<lparr>patches := patches w @ [(''Service'', req, MergeFrom (svc_Annotations svc)
                (Some ((entries (svc_Annotations svc))(AnnLastCheckedAt \<mapsto> now c))))],
            services := (if patch_fault c = None
              then (services w)(req \<mapsto> svc\<lparr>svc_Annotations :=
                     Some ((entries (svc_Annotations svc))(AnnLastCheckedAt \<mapsto> now c))\<rparr>)
              else services w)\<rparr>)
       \<and> dom (MergeFrom (svc_Annotations svc)
                (Some ((entries (svc_Annotations svc))(AnnLastCheckedAt \<mapsto> now c))))
            \<subseteq> {AnnLastCheckedAt})"
proof (intro conjI impI)
  assume h: "deployments w req = Some dep \<and> get_fault c = None
      \<and> dep_Labels dep = Some l \<and> l LabelEnabled = Some ''true''
      \<and> (\<forall>a. dep_Annotations dep = Some a \<longrightarrow> a AnnExpectedHash = None)"
  then show "DeploymentReconciler_Reconcile hashd c w req =
         (patch_fault c,
          w\<lparr>patches := patches w @ [(''Deployment'', req, MergeFrom (dep_Annotations dep)
                (Some ((entries (dep_Annotations dep))(AnnLastCheckedAt \<mapsto> now c))))],
            deployments := (if patch_fault c = None
              then (deployments w)(req \<mapsto> dep\<lparr>dep_Annotations :=
                     Some ((entries (dep_Annotations dep))(AnnLastCheckedAt \<mapsto> now c))\<rparr>)
              else deployments w)\<rparr>)"
    by (intro Deployment_no_baseline[of w req dep c l]) auto
next
  assume h: "services w req = Some svc \<and> get_fault c = None
      \<and> svc_Labels svc = Some l' \<and> l' LabelEnabled = Some ''true''
      \<and> (\<forall>a. svc_Annotations svc = Some a \<longrightarrow> a AnnExpectedHash = None)"
  then show "ServiceReconciler_Reconcile hashs c w req =
         (patch_fault c,
          w\<lparr>patches := patches w @ [(''Service'', req, MergeFrom (svc_Annotations svc)
                (Some ((entries (svc_Annotations svc))(AnnLastCheckedAt \<mapsto> now c))))],
            services := (if patch_fault c = None
              then (services w)(req \<mapsto> svc\<lparr>svc_Annotations :=
                     Some ((entries (svc_Annotations svc))(AnnLastCheckedAt \<mapsto> now c))\<rparr>)
              else services w)\<rparr>)"
    by (intro Service_no_baseline[of w req svc c l']) auto
qed (rule patch_only_key)+

theorem no_baseline_writes_last_checked_only_witness:
  "dep_Annotations (web opted_in (Some [AnnDrifted \<mapsto> ''true''])) = Some [AnnDrifted \<mapsto> ''true'']
   \<and> [AnnDrifted \<mapsto> ''true''] AnnExpectedHash = None
   \<and> DeploymentReconciler_Reconcile (HashDeployment id) (quiet ''t1'')
        (cluster_of (web opted_in (Some [AnnDrifted \<mapsto> ''true''])) (dns opted_in None)) web_key
     = (None,
        \<lparr>deployments = [web_key \<mapsto>
             web opted_in (Some [AnnDrifted \<mapsto> ''true'', AnnLastCheckedAt \<mapsto> ''t1''])],
         services = [web_key \<mapsto> dns opted_in None],
         patches = [(''Deployment'', web_key, MergeFrom (Some [AnnDrifted \<mapsto> ''true''])
                      (Some [AnnDrifted \<mapsto> ''true'', AnnLastCheckedAt \<mapsto> ''t1'']))],
         events = [], logs = []\<rparr>)
   \<and> svc_Annotations (dns opted_in None) = None
   \<and> ServiceReconciler_Reconcile (HashService id) (quiet ''t1'')
        (cluster_of (web opted_in (Some [AnnDrifted \<mapsto> ''true''])) (dns opted_in None)) web_key
     = (None,
        \<lparr>deployments = [web_key \<mapsto> web opted_in (Some [AnnDrifted \<mapsto> ''true''])],
         services = [web_key \<mapsto> dns opted_in (Some [AnnLastCheckedAt \<mapsto> ''t1''])],
         patches = [(''Service'', web_key, MergeFrom None (Some [AnnLastCheckedAt \<mapsto> ''t1'']))],
         events = [], logs = []\<rparr>)"
  using no_baseline_writes_last_checked_only[of
      "cluster_of (web opted_in (Some [AnnDrifted \<mapsto> ''true''])) (dns opted_in None)"
      web_key "web opted_in (Some [AnnDrifted \<mapsto> ''true''])" "quiet ''t1''"
      "[LabelEnabled \<mapsto> ''true'']" "HashDeployment id" "dns opted_in None"
      "[LabelEnabled \<mapsto> ''true'']" "HashService id"]
  by (simp add: cluster_of_def quiet_def web_def dns_def opted_in_def)

lemma MergeFrom_without_expected:
  "a AnnExpectedHash = Some [] \<Longrightarrow>
   MergeFrom (Some (a(AnnExpectedHash := None)))
       (Some ((a(AnnExpectedHash := None))(AnnLastCheckedAt \<mapsto> t)))
     = MergeFrom (Some a) (Some (a(AnnLastCheckedAt \<mapsto> t)))"
  by (rule ext) (simp add: MergeFrom_def)

text \<open>
  Claim C10. An expected-hash annotation that is present with the empty string as its
  value is handled as a missing one: the opted-in object gets one patch that can only set
  last-checked-at, nothing else is written, no event is recorded, the outcome does not
  depend on the hash function, and the result, the patch sent, the events and the logs
  are those obtained for the same object with the annotation removed.
\<close>

theorem empty_baseline_is_no_baseline:
  "(deployments w req = Some dep \<and> get_fault c = None
      \<and> dep_Labels dep = Some l \<and> l LabelEnabled = Some ''true''
      \<and> dep_Annotations dep = Some a \<and> a AnnExpectedHash = Some ''''
    \<longrightarrow> DeploymentReconciler_Reconcile hashd c w req =
         (patch_fault c,
          w\<lparr>patches := patches w @ [(''Deployment'', req,
                MergeFrom (Some a) (Some (a(AnnLastCheckedAt \<mapsto> now c))))],
            deployments := (if patch_fault c = None
              then (deployments w)(req \<mapsto>
                     dep\<lparr>dep_Annotations := Some (a(AnnLastCheckedAt \<mapsto> now c))\<rparr>)
              else deployments w)\<rparr>)
       \<and> (let absent = w\<lparr>deployments := (deployments w)(req \<mapsto>
                     dep\<lparr>dep_Annotations := Some (a(AnnExpectedHash := None))\<rparr>)\<rparr>;
               r = DeploymentReconciler_Reconcile hashd c w req;
               r' = DeploymentReconciler_Reconcile hashd' c absent req
           in fst r = fst r' \<and> patches (snd r) = patches (snd r')
              \<and> events (snd r) = events (snd r') \<and> logs (snd r) = logs (snd r')))
   \<and> (services w req = Some svc \<and> get_fault c = None
      \<and> svc_Labels svc = Some l' \<and> l' LabelEnabled = Some ''true''
      \<and> svc_Annotations svc = Some a' \<and> a' AnnExpectedHash = Some ''''
    \<longrightarrow> ServiceReconciler_Reconcile hashs c w req =
         (patch_fault c,
          w\<lparr>patches := patches w @ [(''Service'', req,
                MergeFrom (Some a') (Some (a'(AnnLastCheckedAt \<mapsto> now c))))],
            services := (if patch_fault c = None
              then (services w)(req \<mapsto>
                     svc\<lparr>svc_Annotations := Some (a'(AnnLastCheckedAt \<mapsto> now c))\<rparr>)
              else services w)\<rparr>)
       \<and> (let absent = w\<lparr>services := (services w)(req \<mapsto>
                     svc\<lparr>svc_Annotations := Some (a'(AnnExpectedHash := None))\<rparr>)\<rparr>;
               r = ServiceReconciler_Reconcile hashs c w req;
               r' = ServiceReconciler_Reconcile hashs' c absent req
           in fst r = fst r' \<and> patches (snd r) = patches (snd r')
              \<and> events (snd r) = events (snd r') \<and> logs (snd r) = logs (snd r')))"
proof (intro conjI impI)
  assume h: "deployments w req = Some dep \<and> get_fault c = None
      \<and> dep_Labels dep = Some l \<and> l LabelEnabled = Some ''true''
      \<and> dep_Annotations dep = Some a \<and> a AnnExpectedHash = Some ''''"
  define dep0 where "dep0 = dep\<lparr>dep_Annotations := Some (a(AnnExpectedHash := None))\<rparr>"
  define absent where "absent = w\<lparr>deployments := (deployments w)(req \<mapsto> dep0)\<rparr>"
  have present: "DeploymentReconciler_Reconcile hashd c w req =
         (patch_fault c,
          w\<lparr>patches := patches w @ [(''Deployment'', req,
                MergeFrom (Some a) (Some (a(AnnLastCheckedAt \<mapsto> now c))))],
            deployments := (if patch_fault c = None
              then (deployments w)(req \<mapsto>
                     dep\<lparr>dep_Annotations := Some (a(AnnLastCheckedAt \<mapsto> now c))\<rparr>)
              else deployments w)\<rparr>)"
    using Deployment_no_baseline[of w req dep c l hashd] h by simp
  have gone: "DeploymentReconciler_Reconcile hashd' c absent req =
         (patch_fault c,
          absent\<lparr>patches := patches absent @ [(''Deployment'', req,
                MergeFrom (Some a) (Some (a(AnnLastCheckedAt \<mapsto> now c))))],
            deployments := (if patch_fault c = None
              then (deployments absent)(req \<mapsto> dep0\<lparr>dep_Annotations :=
                     Some ((a(AnnExpectedHash := None))(AnnLastCheckedAt \<mapsto> now c))\<rparr>)
              else deployments absent)\<rparr>)"
    using Deployment_no_baseline[of absent req dep0 c l hashd'] h
      MergeFrom_without_expected[of a "now c"]
    by (simp add: absent_def dep0_def)
  show "DeploymentReconciler_Reconcile hashd c w req =
         (patch_fault c,
          w\<lparr>patches := patches w @ [(''Deployment'', req,
                MergeFrom (Some a) (Some (a(AnnLastCheckedAt \<mapsto> now c))))],
            deployments := (if patch_fault c = None
              then (deployments w)(req \<mapsto>
                     dep\<lparr>dep_Annotations := Some (a(AnnLastCheckedAt \<mapsto> now c))\<rparr>)
              else deployments w)\<rparr>)"
    by (rule present)
  show "let absent = w\<lparr>deployments := (deployments w)(req \<mapsto>
                     dep\<lparr>dep_Annotations := Some (a(AnnExpectedHash := None))\<rparr>)\<rparr>;
               r = DeploymentReconciler_Reconcile hashd c w req;
               r' = DeploymentReconciler_Reconcile hashd' c absent req
           in fst r = fst r' \<and> patches (snd r) = patches (snd r')
              \<and> events (snd r) = events (snd r') \<and> logs (snd r) = logs (snd r')"
    unfolding Let_def absent_def[symmetric] dep0_def[symmetric] present gone
    by (simp add: absent_def)
next
  assume h: "services w req = Some svc \<and> get_fault c = None
      \<and> svc_Labels svc = Some l' \<and> l' LabelEnabled = Some ''true''
      \<and> svc_Annotations svc = Some a' \<and> a' AnnExpectedHash = Some ''''"
  define svc0 where "svc0 = svc\<lparr>svc_Annotations := Some (a'(AnnExpectedHash := None))\<rparr>"
  define absent where "absent = w\<lparr>services := (services w)(req \<mapsto> svc0)\<rparr>"
  have present: "ServiceReconciler_Reconcile hashs c w req =
         (patch_fault c,
          w\<lparr>patches := patches w @ [(''Service'', req,
                MergeFrom (Some a') (Some (a'(AnnLastCheckedAt \<mapsto> now c))))],
            services := (if patch_fault c = None
              then (services w)(req \<mapsto>
                     svc\<lparr>svc_Annotations := Some (a'(AnnLastCheckedAt \<mapsto> now c))\<rparr>)
              else services w)\<rparr>)"
    using Service_no_baseline[of w req svc c l' hashs] h by simp
  have gone: "ServiceReconciler_Reconcile hashs' c absent req =
         (patch_fault c,
          absent\<lparr>patches := patches absent @ [(''Service'', req,
                MergeFrom (Some a') (Some (a'(AnnLastCheckedAt \<mapsto> now c))))],
            services := (if patch_fault c = None
              then (services absent)(req \<mapsto> svc0\<lparr>svc_Annotations :=
                     Some ((a'(AnnExpectedHash := None))(AnnLastCheckedAt \<mapsto> now c))\<rparr>)
              else services absent)\<rparr>)"
    using Service_no_baseline[of absent req svc0 c l' hashs'] h
      MergeFrom_without_expected[of a' "now c"]
    by (simp add: absent_def svc0_def)
  show "ServiceReconciler_Reconcile hashs c w req =
         (patch_fault c,
          w\<lparr>patches := patches w @ [(''Service'', req,
                MergeFrom (Some a') (Some (a'(AnnLastCheckedAt \<mapsto> now c))))],
            services := (if patch_fault c = None
              then (services w)(req \<mapsto>
                     svc\<lparr>svc_Annotations := Some (a'(AnnLastCheckedAt \<mapsto> now c))\<rparr>)
              else services w)\<rparr>)"
    by (rule present)
  show "let absent = w\<lparr>services := (services w)(req \<mapsto>
                     svc\<lparr>svc_Annotations := Some (a'(AnnExpectedHash := None))\<rparr>)\<rparr>;
               r = ServiceReconciler_Reconcile hashs c w req;
               r' = ServiceReconciler_Reconcile hashs' c absent req
           in fst r = fst r' \<and> patches (snd r) = patches (snd r')
              \<and> events (snd r) = events (snd r') \<and> logs (snd r) = logs (snd r')"
    unfolding Let_def absent_def[symmetric] svc0_def[symmetric] present gone
    by (simp add: absent_def)
qed

theorem empty_baseline_is_no_baseline_witness:
  "dep_Annotations (web opted_in (Some [AnnExpectedHash \<mapsto> ''''])) = Some [AnnExpectedHash \<mapsto> '''']
   \<and> DeploymentReconciler_Reconcile (HashDeployment id) (quiet ''t1'')
        (cluster_of (web opted_in (Some [AnnExpectedHash \<mapsto> '''']))
           (dns opted_in (Some [AnnExpectedHash \<mapsto> '''']))) web_key
     = (None,
        \<lparr>deployments = [web_key \<mapsto>
             web opted_in (Some [AnnExpectedHash \<mapsto> '''', AnnLastCheckedAt \<mapsto> ''t1''])],
         services = [web_key \<mapsto> dns opted_in (Some [AnnExpectedHash \<mapsto> ''''])],
         patches = [(''Deployment'', web_key, MergeFrom (Some [AnnExpectedHash \<mapsto> ''''])
                      (Some [AnnExpectedHash \<mapsto> '''', AnnLastCheckedAt \<mapsto> ''t1'']))],
         events = [], logs = []\<rparr>)
   \<and> ServiceReconciler_Reconcile (HashService id) (quiet ''t1'')
        (cluster_of (web opted_in (Some [AnnExpectedHash \<mapsto> '''']))
           (dns opted_in (Some [AnnExpectedHash \<mapsto> '''']))) web_key
     = (None,
        \<lparr>deployments = [web_key \<mapsto> web opted_in (Some [AnnExpectedHash \<mapsto> ''''])],
         services = [web_key \<mapsto>
             dns opted_in (Some [AnnExpectedHash \<mapsto> '''', AnnLastCheckedAt \<mapsto> ''t1''])],
         patches = [(''Service'', web_key, MergeFrom (Some [AnnExpectedHash \<mapsto> ''''])
                      (Some [AnnExpectedHash \<mapsto> '''', AnnLastCheckedAt \<mapsto> ''t1'']))],
         events = [], logs = []\<rparr>)"
  using empty_baseline_is_no_baseline[of
      "cluster_of (web opted_in (Some [AnnExpectedHash \<mapsto> '''']))
         (dns opted_in (Some [AnnExpectedHash \<mapsto> '''']))"
      web_key "web opted_in (Some [AnnExpectedHash \<mapsto> ''''])" "quiet ''t1''"
      "[LabelEnabled \<mapsto> ''true'']" "[AnnExpectedHash \<mapsto> '''']" "HashDeployment id"
      "HashDeployment id"
      "dns opted_in (Some [AnnExpectedHash \<mapsto> ''''])"
      "[LabelEnabled \<mapsto> ''true'']" "[AnnExpectedHash \<mapsto> '''']" "HashService id"
      "HashService id"]
  by (simp add: cluster_of_def quiet_def web_def dns_def opted_in_def Let_def)
section \<open>The reconcilers: the path that hashes\<close>

lemma HashDeployment_ignores_annotations [simp]:
  "HashDeployment S (dep\<lparr>dep_Annotations := x\<rparr>) = HashDeployment S dep"
  by (simp add: HashDeployment_def canonicalDeployment_def)

lemma Deployment_Reconcile_found:
  assumes "deployments w req = Some dep" "get_fault c = None"
  shows "DeploymentReconciler_Reconcile hashd c w req =
     (if lookup (dep_Labels dep) LabelEnabled \<noteq> ''true'' then (None, w)
      else if lookup (dep_Annotations dep) AnnExpectedHash = [] 
      then Deployment_patchAnnotations c w req dep [AnnLastCheckedAt \<mapsto> now c]
      else (case hashd dep of
              Inl err \<Rightarrow> (Some err, w)
            | Inr h \<Rightarrow> Deployment_patchAnnotations c
                 (w\<lparr>events := events w @
                      (if h \<noteq> lookup (dep_Annotations dep) AnnExpectedHash
                       then [drift_event ''Deployment'' req (lookup (dep_Annotations dep) AnnExpectedHash) h]
                       else []),
                    logs := logs w @
                      (if h \<noteq> lookup (dep_Annotations dep) AnnExpectedHash
                       then [drift_log (lookup (dep_Annotations dep) AnnExpectedHash) h] else [])\<rparr>)
                 req dep (staged (dep_Annotations dep) (lookup (dep_Annotations dep) AnnExpectedHash) h (now c))))"
proof -
  have e: "(if dep_Annotations dep \<noteq> None then lookup (dep_Annotations dep) AnnExpectedHash else [])
      = lookup (dep_Annotations dep) AnnExpectedHash"
    by (cases "dep_Annotations dep") auto
  have d: "(dep_Annotations dep = None \<or> lookup (dep_Annotations dep) AnnDriftedAt = [])
      = (lookup (dep_Annotations dep) AnnDriftedAt = [])"
    by (cases "dep_Annotations dep") auto
  have l: "(dep_Labels dep = None \<or> lookup (dep_Labels dep) LabelEnabled \<noteq> ''true'')
      = (lookup (dep_Labels dep) LabelEnabled \<noteq> ''true'')"
    by (cases "dep_Labels dep") auto
  show ?thesis
    unfolding DeploymentReconciler_Reconcile_def e d l
    using assms
    by (simp add: client_Get_def Let_def staged_def split: sum.splits)
qed

lemma staged_live: "staged ann e h t AnnLiveHash = Some h"
  by (simp add: staged_def)

lemma staged_nonempty: "staged ann e h t \<noteq> Map.empty"
  using staged_live[of ann e h t] by (auto simp: fun_eq_iff simp del: staged_live)

lemma staged_other:
  "k \<notin> {AnnLiveHash, AnnLastCheckedAt, AnnDrifted, AnnDriftedAt} \<Longrightarrow> staged ann e h t k = None"
  by (simp add: staged_def)

lemma lookup_add_staged_expected:
  "lookup (Some (entries ann ++ staged ann e h t)) AnnExpectedHash = lookup ann AnnExpectedHash"
  by (cases ann) (simp_all add: map_add_def staged_other)

lemma staged_again:
  assumes "t1 \<noteq> []"
  shows "k \<noteq> AnnLastCheckedAt \<Longrightarrow>
         (entries ann ++ staged ann e h t1 ++ staged (Some (entries ann ++ staged ann e h t1)) e h t2) k
           = (entries ann ++ staged ann e h t1) k"
    and "entries ann ++ staged ann e h t1 ++ staged (Some (entries ann ++ staged ann e h t1)) e h t1
           = entries ann ++ staged ann e h t1"
  using assms
  by (cases ann; auto simp: staged_def map_add_def fun_eq_iff split: option.splits)+

lemma Deployment_patched:
  assumes "deployments w req = Some dep" "kv \<noteq> Map.empty" "patch_fault c = None"
  shows "deployments (snd (Deployment_patchAnnotations c w req dep kv)) =
           (deployments w)(req \<mapsto> dep\<lparr>dep_Annotations := Some (entries (dep_Annotations dep) ++ kv)\<rparr>)"
    and "events (snd (Deployment_patchAnnotations c w req dep kv)) = events w"
    and "logs (snd (Deployment_patchAnnotations c w req dep kv)) = logs w"
    and "services (snd (Deployment_patchAnnotations c w req dep kv)) = services w"
  using assms by (simp_all add: Deployment_patchAnnotations_eq)

lemma twice_Deployment:
  fixes S :: "string \<Rightarrow> string"
  assumes found: "deployments w req = Some dep"
    and c1: "get_fault c1 = None" "patch_fault c1 = None"
    and c2: "get_fault c2 = None" "patch_fault c2 = None"
    and t1: "now c1 \<noteq> []"
  defines "w1 \<equiv> snd (DeploymentReconciler_Reconcile (HashDeployment S) c1 w req)"
  defines "w2 \<equiv> snd (DeploymentReconciler_Reconcile (HashDeployment S) c2 w1 req)"
  shows "(\<forall>k. k \<noteq> AnnLastCheckedAt \<longrightarrow>
            deployment_annotation w2 req k = deployment_annotation w1 req k)
       \<and> (now c2 = now c1 \<longrightarrow> deployments w2 = deployments w1)
       \<and> events w2 = events w1 @
            (case drift_seen (dep_Labels dep) (dep_Annotations dep) (HashDeployment S dep) of
               None \<Rightarrow> [] | Some (e, h) \<Rightarrow> [drift_event ''Deployment'' req e h])"
proof -
  let ?H = "HashDeployment S"
  let ?ann = "dep_Annotations dep"
  let ?e = "lookup ?ann AnnExpectedHash"
  note R1 = Deployment_Reconcile_found[OF found c1(1), of ?H]
  consider (out) "lookup (dep_Labels dep) LabelEnabled \<noteq> ''true''"
    | (nobase) "lookup (dep_Labels dep) LabelEnabled = ''true''" "?e = []"
    | (err) x where "lookup (dep_Labels dep) LabelEnabled = ''true''" "?e \<noteq> []" "?H dep = Inl x"
    | (ok) h where "lookup (dep_Labels dep) LabelEnabled = ''true''" "?e \<noteq> []" "?H dep = Inr h"
    by (cases "?H dep") auto
  then show ?thesis
  proof cases
    case out
    have w1: "w1 = w" using out by (simp add: w1_def R1)
    have w2: "w2 = w"
      using out by (simp add: w2_def w1 Deployment_Reconcile_found[OF found c2(1)])
    show ?thesis using out by (simp add: w1 w2 drift_seen_def)
  next
    case nobase
    let ?kv1 = "[AnnLastCheckedAt \<mapsto> now c1]"
    let ?dep1 = "dep\<lparr>dep_Annotations := Some (entries ?ann ++ ?kv1)\<rparr>"
    have w1: "w1 = snd (Deployment_patchAnnotations c1 w req dep ?kv1)"
      using nobase by (simp add: w1_def R1)
    have kv1: "?kv1 \<noteq> Map.empty" by simp
    note P1 = Deployment_patched[OF found kv1 c1(2), folded w1]
    have found1: "deployments w1 req = Some ?dep1" by (simp add: P1)
    have e1: "lookup (dep_Annotations ?dep1) AnnExpectedHash = []"
      using nobase(2) by (cases ?ann) (simp_all add: map_add_def)
    let ?kv2 = "[AnnLastCheckedAt \<mapsto> now c2]"
    have w2: "w2 = snd (Deployment_patchAnnotations c2 w1 req ?dep1 ?kv2)"
      using nobase(1) e1 by (simp add: w2_def Deployment_Reconcile_found[OF found1 c2(1)])
    have kv2: "?kv2 \<noteq> Map.empty" by simp
    note P2 = Deployment_patched[OF found1 kv2 c2(2), folded w2]
    show ?thesis
      using nobase found1
      by (auto simp: P2 deployment_annotation_def drift_seen_def fun_upd_idem)
  next
    case err
    have w1: "w1 = w" using err by (simp add: w1_def R1)
    have w2: "w2 = w"
      using err by (simp add: w2_def w1 Deployment_Reconcile_found[OF found c2(1)])
    show ?thesis using err by (simp add: w1 w2 drift_seen_def)
  next
    case ok
    let ?kv1 = "staged ?ann ?e h (now c1)"
    let ?ev = "if h \<noteq> ?e then [drift_event ''Deployment'' req ?e h] else []"
    let ?lg = "if h \<noteq> ?e then [drift_log ?e h] else []"
    let ?wa = "w\<lparr>events := events w @ ?ev, logs := logs w @ ?lg\<rparr>"
    let ?dep1 = "dep\<lparr>dep_Annotations := Some (entries ?ann ++ ?kv1)\<rparr>"
    have founda: "deployments ?wa req = Some dep" using found by simp
    have w1: "w1 = snd (Deployment_patchAnnotations c1 ?wa req dep ?kv1)"
      using ok by (simp add: w1_def R1)
    note P1 = Deployment_patched[OF founda staged_nonempty[of ?ann ?e h "now c1"] c1(2), folded w1]
    have found1: "deployments w1 req = Some ?dep1" by (simp add: P1)
    have e1: "lookup (dep_Annotations ?dep1) AnnExpectedHash = ?e"
      by (simp add: lookup_add_staged_expected del: lookup_simps)
    have h1: "?H ?dep1 = Inr h" using ok by simp
    let ?ann1 = "Some (entries ?ann ++ ?kv1)"
    let ?kv2 = "staged ?ann1 ?e h (now c2)"
    let ?wb = "w1\<lparr>events := events w1 @ ?ev, logs := logs w1 @ ?lg\<rparr>"
    have foundb: "deployments ?wb req = Some ?dep1" using found1 by simp
    have w2: "w2 = snd (Deployment_patchAnnotations c2 ?wb req ?dep1 ?kv2)"
      unfolding w2_def Deployment_Reconcile_found[OF found1 c2(1)] e1 h1
      using ok by simp
    note P2 = Deployment_patched[OF foundb staged_nonempty[of ?ann1 ?e h "now c2"] c2(2), folded w2]
    have a: "\<forall>k. k \<noteq> AnnLastCheckedAt \<longrightarrow>
            deployment_annotation w2 req k = deployment_annotation w1 req k"
      using staged_again(1)[OF t1, of _ ?ann ?e h "now c2"]
      by (simp add: deployment_annotation_def P2 found1)
    have b: "now c2 = now c1 \<longrightarrow> deployments w2 = deployments w1"
      using staged_again(2)[OF t1, of ?ann ?e h]
      by (auto simp: P2 found1)
    have c: "events w2 = events w1 @ ?ev" by (simp add: P2)
    show ?thesis using a b c ok by (simp add: drift_seen_def)
  qed
qed

lemma HashService_ignores_annotations [simp]:
  "HashService S (svc\<lparr>svc_Annotations := x\<rparr>) = HashService S svc"
  by (simp add: HashService_def canonicalService_def)

lemma Service_Reconcile_found:
  assumes "services w req = Some svc" "get_fault c = None"
  shows "ServiceReconciler_Reconcile hashs c w req =
     (if lookup (svc_Labels svc) LabelEnabled \<noteq> ''true'' then (None, w)
      else if lookup (svc_Annotations svc) AnnExpectedHash = [] 
      then Service_patchAnnotations c w req svc [AnnLastCheckedAt \<mapsto> now c]
      else (case hashs svc of
              Inl err \<Rightarrow> (Some err, w)
            | Inr h \<Rightarrow> Service_patchAnnotations c
                 (w\<lparr>events := events w @
                      (if h \<noteq> lookup (svc_Annotations svc) AnnExpectedHash
                       then [drift_event ''Service'' req (lookup (svc_Annotations svc) AnnExpectedHash) h]
                       else []),
                    logs := logs w @
                      (if h \<noteq> lookup (svc_Annotations svc) AnnExpectedHash
                       then [drift_log (lookup (svc_Annotations svc) AnnExpectedHash) h] else [])\<rparr>)
                 req svc (staged (svc_Annotations svc) (lookup (svc_Annotations svc) AnnExpectedHash) h (now c))))"
proof -
  have e: "(if svc_Annotations svc \<noteq> None then lookup (svc_Annotations svc) AnnExpectedHash else [])
      = lookup (svc_Annotations svc) AnnExpectedHash"
    by (cases "svc_Annotations svc") auto
  have d: "(svc_Annotations svc = None \<or> lookup (svc_Annotations svc) AnnDriftedAt = [])
      = (lookup (svc_Annotations svc) AnnDriftedAt = [])"
    by (cases "svc_Annotations svc") auto
  have l: "(svc_Labels svc = None \<or> lookup (svc_Labels svc) LabelEnabled \<noteq> ''true'')
      = (lookup (svc_Labels svc) LabelEnabled \<noteq> ''true'')"
    by (cases "svc_Labels svc") auto
  show ?thesis
    unfolding ServiceReconciler_Reconcile_def e d l
    using assms
    by (simp add: client_Get_def Let_def staged_def split: sum.splits)
qed

lemma Service_patched:
  assumes "services w req = Some svc" "kv \<noteq> Map.empty" "patch_fault c = None"
  shows "services (snd (Service_patchAnnotations c w req svc kv)) =
           (services w)(req \<mapsto> svc\<lparr>svc_Annotations := Some (entries (svc_Annotations svc) ++ kv)\<rparr>)"
    and "events (snd (Service_patchAnnotations c w req svc kv)) = events w"
    and "logs (snd (Service_patchAnnotations c w req svc kv)) = logs w"
    and "deployments (snd (Service_patchAnnotations c w req svc kv)) = deployments w"
  using assms by (simp_all add: Service_patchAnnotations_eq)

lemma twice_Service:
  fixes S :: "string \<Rightarrow> string"
  assumes found: "services w req = Some svc"
    and c1: "get_fault c1 = None" "patch_fault c1 = None"
    and c2: "get_fault c2 = None" "patch_fault c2 = None"
    and t1: "now c1 \<noteq> []"
  defines "w1 \<equiv> snd (ServiceReconciler_Reconcile (HashService S) c1 w req)"
  defines "w2 \<equiv> snd (ServiceReconciler_Reconcile (HashService S) c2 w1 req)"
  shows "(\<forall>k. k \<noteq> AnnLastCheckedAt \<longrightarrow>
            service_annotation w2 req k = service_annotation w1 req k)
       \<and> (now c2 = now c1 \<longrightarrow> services w2 = services w1)
       \<and> events w2 = events w1 @
            (case drift_seen (svc_Labels svc) (svc_Annotations svc) (HashService S svc) of
               None \<Rightarrow> [] | Some (e, h) \<Rightarrow> [drift_event ''Service'' req e h])"
proof -
  let ?H = "HashService S"
  let ?ann = "svc_Annotations svc"
  let ?e = "lookup ?ann AnnExpectedHash"
  note R1 = Service_Reconcile_found[OF found c1(1), of ?H]
  consider (out) "lookup (svc_Labels svc) LabelEnabled \<noteq> ''true''"
    | (nobase) "lookup (svc_Labels svc) LabelEnabled = ''true''" "?e = []"
    | (err) x where "lookup (svc_Labels svc) LabelEnabled = ''true''" "?e \<noteq> []" "?H svc = Inl x"
    | (ok) h where "lookup (svc_Labels svc) LabelEnabled = ''true''" "?e \<noteq> []" "?H svc = Inr h"
    by (cases "?H svc") auto
  then show ?thesis
  proof cases
    case out
    have w1: "w1 = w" using out by (simp add: w1_def R1)
    have w2: "w2 = w"
      using out by (simp add: w2_def w1 Service_Reconcile_found[OF found c2(1)])
    show ?thesis using out by (simp add: w1 w2 drift_seen_def)
  next
    case nobase
    let ?kv1 = "[AnnLastCheckedAt \<mapsto> now c1]"
    let ?svc1 = "svc\<lparr>svc_Annotations := Some (entries ?ann ++ ?kv1)\<rparr>"
    have w1: "w1 = snd (Service_patchAnnotations c1 w req svc ?kv1)"
      using nobase by (simp add: w1_def R1)
    have kv1: "?kv1 \<noteq> Map.empty" by simp
    note P1 = Service_patched[OF found kv1 c1(2), folded w1]
    have found1: "services w1 req = Some ?svc1" by (simp add: P1)
    have e1: "lookup (svc_Annotations ?svc1) AnnExpectedHash = []"
      using nobase(2) by (cases ?ann) (simp_all add: map_add_def)
    let ?kv2 = "[AnnLastCheckedAt \<mapsto> now c2]"
    have w2: "w2 = snd (Service_patchAnnotations c2 w1 req ?svc1 ?kv2)"
      using nobase(1) e1 by (simp add: w2_def Service_Reconcile_found[OF found1 c2(1)])
    have kv2: "?kv2 \<noteq> Map.empty" by simp
    note P2 = Service_patched[OF found1 kv2 c2(2), folded w2]
    show ?thesis
      using nobase found1
      by (auto simp: P2 service_annotation_def drift_seen_def fun_upd_idem)
  next
    case err
    have w1: "w1 = w" using err by (simp add: w1_def R1)
    have w2: "w2 = w"
      using err by (simp add: w2_def w1 Service_Reconcile_found[OF found c2(1)])
    show ?thesis using err by (simp add: w1 w2 drift_seen_def)
  next
    case ok
    let ?kv1 = "staged ?ann ?e h (now c1)"
    let ?ev = "if h \<noteq> ?e then [drift_event ''Service'' req ?e h] else []"
    let ?lg = "if h \<noteq> ?e then [drift_log ?e h] else []"
    let ?wa = "w\<lparr>events := events w @ ?ev, logs := logs w @ ?lg\<rparr>"
    let ?svc1 = "svc\<lparr>svc_Annotations := Some (entries ?ann ++ ?kv1)\<rparr>"
    have founda: "services ?wa req = Some svc" using found by simp
    have w1: "w1 = snd (Service_patchAnnotations c1 ?wa req svc ?kv1)"
      using ok by (simp add: w1_def R1)
    note P1 = Service_patched[OF founda staged_nonempty[of ?ann ?e h "now c1"] c1(2), folded w1]
    have found1: "services w1 req = Some ?svc1" by (simp add: P1)
    have e1: "lookup (svc_Annotations ?svc1) AnnExpectedHash = ?e"
      by (simp add: lookup_add_staged_expected del: lookup_simps)
    have h1: "?H ?svc1 = Inr h" using ok by simp
    let ?ann1 = "Some (entries ?ann ++ ?kv1)"
    let ?kv2 = "staged ?ann1 ?e h (now c2)"
    let ?wb = "w1\<lparr>events := events w1 @ ?ev, logs := logs w1 @ ?lg\<rparr>"
    have foundb: "services ?wb req = Some ?svc1" using found1 by simp
    have w2: "w2 = snd (Service_patchAnnotations c2 ?wb req ?svc1 ?kv2)"
      unfolding w2_def Service_Reconcile_found[OF found1 c2(1)] e1 h1
      using ok by simp
    note P2 = Service_patched[OF foundb staged_nonempty[of ?ann1 ?e h "now c2"] c2(2), folded w2]
    have a: "\<forall>k. k \<noteq> AnnLastCheckedAt \<longrightarrow>
            service_annotation w2 req k = service_annotation w1 req k"
      using staged_again(1)[OF t1, of _ ?ann ?e h "now c2"]
      by (simp add: service_annotation_def P2 found1)
    have b: "now c2 = now c1 \<longrightarrow> services w2 = services w1"
      using staged_again(2)[OF t1, of ?ann ?e h]
      by (auto simp: P2 found1)
    have c: "events w2 = events w1 @ ?ev" by (simp add: P2)
    show ?thesis using a b c ok by (simp add: drift_seen_def)
  qed
qed

lemma drifted_at_kept_Deployment:
  assumes "deployment_annotation w req AnnDriftedAt = Some t" "t \<noteq> []"
  shows "deployment_annotation (snd (DeploymentReconciler_Reconcile hashd c w req)) req AnnDriftedAt
           = Some t"
proof -
  from assms(1) obtain dep where found: "deployments w req = Some dep"
    and at: "entries (dep_Annotations dep) AnnDriftedAt = Some t"
    by (auto simp: deployment_annotation_def split: option.splits)
  from at have l: "lookup (dep_Annotations dep) AnnDriftedAt = t"
    by (cases "dep_Annotations dep") auto
  show ?thesis
  proof (cases "get_fault c")
    case (Some err)
    then show ?thesis
      using assms(1) by (simp add: DeploymentReconciler_Reconcile_def client_Get_def)
  next
    case None
    show ?thesis
      unfolding Deployment_Reconcile_found[OF found None]
      using found at l assms(2)
      by (auto simp: deployment_annotation_def Deployment_patchAnnotations_eq staged_nonempty
          staged_def map_add_def split: sum.splits)
  qed
qed

lemma drifted_at_set_Deployment:
  assumes "deployments w req = Some dep" "get_fault c = None" "patch_fault c = None"
    "lookup (dep_Labels dep) LabelEnabled = ''true''"
    "lookup (dep_Annotations dep) AnnExpectedHash = e" "e \<noteq> []"
    "hashd dep = Inr h" "h \<noteq> e" "lookup (dep_Annotations dep) AnnDriftedAt = []"
  shows "deployment_annotation (snd (DeploymentReconciler_Reconcile hashd c w req)) req AnnDriftedAt
           = Some (now c)"
  unfolding Deployment_Reconcile_found[OF assms(1,2)]
  using assms
  by (simp add: deployment_annotation_def Deployment_patchAnnotations_eq staged_nonempty
      staged_def map_add_def)

lemma drifted_at_kept_Service:
  assumes "service_annotation w req AnnDriftedAt = Some t" "t \<noteq> []"
  shows "service_annotation (snd (ServiceReconciler_Reconcile hashs c w req)) req AnnDriftedAt
           = Some t"
proof -
  from assms(1) obtain svc where found: "services w req = Some svc"
    and at: "entries (svc_Annotations svc) AnnDriftedAt = Some t"
    by (auto simp: service_annotation_def split: option.splits)
  from at have l: "lookup (svc_Annotations svc) AnnDriftedAt = t"
    by (cases "svc_Annotations svc") auto
  show ?thesis
  proof (cases "get_fault c")
    case (Some err)
    then show ?thesis
      using assms(1) by (simp add: ServiceReconciler_Reconcile_def client_Get_def)
  next
    case None
    show ?thesis
      unfolding Service_Reconcile_found[OF found None]
      using found at l assms(2)
      by (auto simp: service_annotation_def Service_patchAnnotations_eq staged_nonempty
          staged_def map_add_def split: sum.splits)
  qed
qed

lemma drifted_at_set_Service:
  assumes "services w req = Some svc" "get_fault c = None" "patch_fault c = None"
    "lookup (svc_Labels svc) LabelEnabled = ''true''"
    "lookup (svc_Annotations svc) AnnExpectedHash = e" "e \<noteq> []"
    "hashs svc = Inr h" "h \<noteq> e" "lookup (svc_Annotations svc) AnnDriftedAt = []"
  shows "service_annotation (snd (ServiceReconciler_Reconcile hashs c w req)) req AnnDriftedAt
           = Some (now c)"
  unfolding Service_Reconcile_found[OF assms(1,2)]
  using assms
  by (simp add: service_annotation_def Service_patchAnnotations_eq staged_nonempty
      staged_def map_add_def)

subsection \<open>What one reconciliation writes\<close>

lemma Deployment_Reconcile_silent:
  assumes "deployments w req = Some dep" "get_fault c = None"
    "\<not> writes_back (dep_Labels dep) (dep_Annotations dep) (hashd dep)"
  shows "snd (DeploymentReconciler_Reconcile hashd c w req) = w"
  unfolding Deployment_Reconcile_found[OF assms(1,2)]
  using assms(3) by (auto simp: writes_back_def split: sum.splits)

lemma Deployment_Reconcile_checked:
  assumes "deployments w req = Some dep" "get_fault c = None" "patch_fault c = None"
    "writes_back (dep_Labels dep) (dep_Annotations dep) (hashd dep)"
  shows "deployment_annotation (snd (DeploymentReconciler_Reconcile hashd c w req)) req
           AnnLastCheckedAt = Some (now c)"
  unfolding Deployment_Reconcile_found[OF assms(1,2)]
  using assms
  by (auto simp: writes_back_def deployment_annotation_def Deployment_patchAnnotations_eq
      staged_nonempty staged_def map_add_def split: sum.splits)

lemma Deployment_Reconcile_object:
  assumes "deployments w req = Some dep" "get_fault c = None" "patch_fault c = None"
  shows "\<exists>ann'. deployments (snd (DeploymentReconciler_Reconcile hashd c w req)) req
               = Some (dep\<lparr>dep_Annotations := ann'\<rparr>)
           \<and> lookup ann' AnnExpectedHash = lookup (dep_Annotations dep) AnnExpectedHash"
proof -
  have same: "\<exists>ann'. deployments w req = Some (dep\<lparr>dep_Annotations := ann'\<rparr>)
           \<and> lookup ann' AnnExpectedHash = lookup (dep_Annotations dep) AnnExpectedHash"
    using assms(1) by (intro exI[of _ "dep_Annotations dep"]) simp
  have nb: "lookup (Some (entries (dep_Annotations dep) ++ [AnnLastCheckedAt \<mapsto> t])) AnnExpectedHash
      = lookup (dep_Annotations dep) AnnExpectedHash" for t
    by (cases "dep_Annotations dep") (simp_all add: map_add_def)
  show ?thesis
    unfolding Deployment_Reconcile_found[OF assms(1,2)]
    using same assms(1,3) nb
    by (auto simp: Deployment_patchAnnotations_eq staged_nonempty lookup_add_staged_expected
        simp del: lookup_simps split: sum.splits)
qed

lemma deployment_annotation_cong:
  "deployments w = deployments w' \<Longrightarrow> deployment_annotation w req k = deployment_annotation w' req k"
  by (simp add: deployment_annotation_def)

lemma twice_Deployment_checked:
  fixes S :: "string \<Rightarrow> string"
  assumes found: "deployments w req = Some dep"
    and c1: "get_fault c1 = None" "patch_fault c1 = None"
    and c2: "get_fault c2 = None" "patch_fault c2 = None"
  defines "w1 \<equiv> snd (DeploymentReconciler_Reconcile (HashDeployment S) c1 w req)"
  defines "w2 \<equiv> snd (DeploymentReconciler_Reconcile (HashDeployment S) c2 w1 req)"
  defines "W \<equiv> writes_back (dep_Labels dep) (dep_Annotations dep) (HashDeployment S dep)"
  shows "(W \<longrightarrow> deployment_annotation w1 req AnnLastCheckedAt = Some (now c1)
              \<and> deployment_annotation w2 req AnnLastCheckedAt = Some (now c2))
       \<and> (\<not> W \<longrightarrow> w1 = w \<and> w2 = w)"
proof -
  let ?H = "HashDeployment S"
  from Deployment_Reconcile_object[OF found c1, of ?H]
  obtain ann' where found1: "deployments w1 req = Some (dep\<lparr>dep_Annotations := ann'\<rparr>)"
    and e1: "lookup ann' AnnExpectedHash = lookup (dep_Annotations dep) AnnExpectedHash"
    unfolding w1_def by blast
  let ?dep1 = "dep\<lparr>dep_Annotations := ann'\<rparr>"
  have W1: "writes_back (dep_Labels ?dep1) (dep_Annotations ?dep1) (?H ?dep1) = W"
    by (simp add: W_def writes_back_def e1 del: lookup_simps)
  show ?thesis
  proof (cases W)
    case True
    have "deployment_annotation w1 req AnnLastCheckedAt = Some (now c1)"
      unfolding w1_def using True
      by (intro Deployment_Reconcile_checked[OF found c1]) (simp add: W_def)
    moreover have "deployment_annotation w2 req AnnLastCheckedAt = Some (now c2)"
      unfolding w2_def using True W1
      by (intro Deployment_Reconcile_checked[OF found1 c2]) simp
    ultimately show ?thesis using True by simp
  next
    case False
    have a: "w1 = w"
      unfolding w1_def using False
      by (intro Deployment_Reconcile_silent[OF found c1(1)]) (simp add: W_def)
    have "w2 = w1"
      unfolding w2_def using False W1
      by (intro Deployment_Reconcile_silent[OF found1 c2(1)]) simp
    with a False show ?thesis by simp
  qed
qed

lemma Service_Reconcile_silent:
  assumes "services w req = Some svc" "get_fault c = None"
    "\<not> writes_back (svc_Labels svc) (svc_Annotations svc) (hashs svc)"
  shows "snd (ServiceReconciler_Reconcile hashs c w req) = w"
  unfolding Service_Reconcile_found[OF assms(1,2)]
  using assms(3) by (auto simp: writes_back_def split: sum.splits)

lemma Service_Reconcile_checked:
  assumes "services w req = Some svc" "get_fault c = None" "patch_fault c = None"
    "writes_back (svc_Labels svc) (svc_Annotations svc) (hashs svc)"
  shows "service_annotation (snd (ServiceReconciler_Reconcile hashs c w req)) req
           AnnLastCheckedAt = Some (now c)"
  unfolding Service_Reconcile_found[OF assms(1,2)]
  using assms
  by (auto simp: writes_back_def service_annotation_def Service_patchAnnotations_eq
      staged_nonempty staged_def map_add_def split: sum.splits)

lemma Service_Reconcile_object:
  assumes "services w req = Some svc" "get_fault c = None" "patch_fault c = None"
  shows "\<exists>ann'. services (snd (ServiceReconciler_Reconcile hashs c w req)) req
               = Some (svc\<lparr>svc_Annotations := ann'\<rparr>)
           \<and> lookup ann' AnnExpectedHash = lookup (svc_Annotations svc) AnnExpectedHash"
proof -
  have same: "\<exists>ann'. services w req = Some (svc\<lparr>svc_Annotations := ann'\<rparr>)
           \<and> lookup ann' AnnExpectedHash = lookup (svc_Annotations svc) AnnExpectedHash"
    using assms(1) by (intro exI[of _ "svc_Annotations svc"]) simp
  have nb: "lookup (Some (entries (svc_Annotations svc) ++ [AnnLastCheckedAt \<mapsto> t])) AnnExpectedHash
      = lookup (svc_Annotations svc) AnnExpectedHash" for t
    by (cases "svc_Annotations svc") (simp_all add: map_add_def)
  show ?thesis
    unfolding Service_Reconcile_found[OF assms(1,2)]
    using same assms(1,3) nb
    by (auto simp: Service_patchAnnotations_eq staged_nonempty lookup_add_staged_expected
        simp del: lookup_simps split: sum.splits)
qed

lemma service_annotation_cong:
  "services w = services w' \<Longrightarrow> service_annotation w req k = service_annotation w' req k"
  by (simp add: service_annotation_def)

lemma twice_Service_checked:
  fixes S :: "string \<Rightarrow> string"
  assumes found: "services w req = Some svc"
    and c1: "get_fault c1 = None" "patch_fault c1 = None"
    and c2: "get_fault c2 = None" "patch_fault c2 = None"
  defines "w1 \<equiv> snd (ServiceReconciler_Reconcile (HashService S) c1 w req)"
  defines "w2 \<equiv> snd (ServiceReconciler_Reconcile (HashService S) c2 w1 req)"
  defines "W \<equiv> writes_back (svc_Labels svc) (svc_Annotations svc) (HashService S svc)"
  shows "(W \<longrightarrow> service_annotation w1 req AnnLastCheckedAt = Some (now c1)
              \<and> service_annotation w2 req AnnLastCheckedAt = Some (now c2))
       \<and> (\<not> W \<longrightarrow> w1 = w \<and> w2 = w)"
proof -
  let ?H = "HashService S"
  from Service_Reconcile_object[OF found c1, of ?H]
  obtain ann' where found1: "services w1 req = Some (svc\<lparr>svc_Annotations := ann'\<rparr>)"
    and e1: "lookup ann' AnnExpectedHash = lookup (svc_Annotations svc) AnnExpectedHash"
    unfolding w1_def by blast
  let ?svc1 = "svc\<lparr>svc_Annotations := ann'\<rparr>"
  have W1: "writes_back (svc_Labels ?svc1) (svc_Annotations ?svc1) (?H ?svc1) = W"
    by (simp add: W_def writes_back_def e1 del: lookup_simps)
  show ?thesis
  proof (cases W)
    case True
    have "service_annotation w1 req AnnLastCheckedAt = Some (now c1)"
      unfolding w1_def using True
      by (intro Service_Reconcile_checked[OF found c1]) (simp add: W_def)
    moreover have "service_annotation w2 req AnnLastCheckedAt = Some (now c2)"
      unfolding w2_def using True W1
      by (intro Service_Reconcile_checked[OF found1 c2]) simp
    ultimately show ?thesis using True by simp
  next
    case False
    have a: "w1 = w"
      unfolding w1_def using False
      by (intro Service_Reconcile_silent[OF found c1(1)]) (simp add: W_def)
    have "w2 = w1"
      unfolding w2_def using False W1
      by (intro Service_Reconcile_silent[OF found1 c2(1)]) simp
    with a False show ?thesis by simp
  qed
qed

lemma drift_seen_iff:
  "(drift_seen labels ann hashed \<noteq> None) =
     (lookup labels LabelEnabled = ''true'' \<and> lookup ann AnnExpectedHash \<noteq> []
      \<and> (\<exists>h. hashed = Inr h \<and> h \<noteq> lookup ann AnnExpectedHash))"
  by (auto simp: drift_seen_def split: sum.splits)

lemma drifted_at_after_Deployment:
  "deployment_annotation (snd (DeploymentReconciler_Reconcile hashd c w req)) req AnnDriftedAt =
     (case deployments w req of
        None \<Rightarrow> None
      | Some d \<Rightarrow>
          if get_fault c = None \<and> patch_fault c = None
             \<and> drift_seen (dep_Labels d) (dep_Annotations d) (hashd d) \<noteq> None
             \<and> lookup (dep_Annotations d) AnnDriftedAt = []
          then Some (now c) else deployment_annotation w req AnnDriftedAt)"
proof (cases "get_fault c")
  case (Some err)
  then show ?thesis
    by (simp add: DeploymentReconciler_Reconcile_def client_Get_def deployment_annotation_def
        split: option.splits)
next
  case None
  show ?thesis
  proof (cases "deployments w req")
    case absent: None
    then show ?thesis
      using None
      by (simp add: DeploymentReconciler_Reconcile_def client_Get_def IsNotFound_def
          deployment_annotation_def)
  next
    case (Some dep)
    show ?thesis
      unfolding Deployment_Reconcile_found[OF Some None] drift_seen_iff
      using Some None
      by (auto simp: deployment_annotation_def Deployment_patchAnnotations_eq staged_nonempty
          staged_def map_add_def split: sum.splits)
  qed
qed

lemma Deployment_Reconcile_frame:
  "services (snd (DeploymentReconciler_Reconcile hashd c w req)) = services w"
  "req' \<noteq> req \<Longrightarrow>
     deployments (snd (DeploymentReconciler_Reconcile hashd c w req)) req' = deployments w req'"
proof -
  have "services (snd (DeploymentReconciler_Reconcile hashd c w req)) = services w
      \<and> (req' \<noteq> req \<longrightarrow>
          deployments (snd (DeploymentReconciler_Reconcile hashd c w req)) req' = deployments w req')"
  proof (cases "get_fault c")
    case (Some err)
    then show ?thesis by (simp add: DeploymentReconciler_Reconcile_def client_Get_def)
  next
    case None
    show ?thesis
    proof (cases "deployments w req")
      case absent: None
      then show ?thesis
        using None
        by (simp add: DeploymentReconciler_Reconcile_def client_Get_def IsNotFound_def)
    next
      case (Some dep)
      show ?thesis
        unfolding Deployment_Reconcile_found[OF Some None]
        using Some
        by (auto simp: Deployment_patchAnnotations_eq staged_nonempty split: sum.splits)
    qed
  qed
  then show "services (snd (DeploymentReconciler_Reconcile hashd c w req)) = services w"
    "req' \<noteq> req \<Longrightarrow>
     deployments (snd (DeploymentReconciler_Reconcile hashd c w req)) req' = deployments w req'"
    by simp_all
qed

lemma drifted_at_after_Service:
  "service_annotation (snd (ServiceReconciler_Reconcile hashs c w req)) req AnnDriftedAt =
     (case services w req of
        None \<Rightarrow> None
      | Some d \<Rightarrow>
          if get_fault c = None \<and> patch_fault c = None
             \<and> drift_seen (svc_Labels d) (svc_Annotations d) (hashs d) \<noteq> None
             \<and> lookup (svc_Annotations d) AnnDriftedAt = []
          then Some (now c) else service_annotation w req AnnDriftedAt)"
proof (cases "get_fault c")
  case (Some err)
  then show ?thesis
    by (simp add: ServiceReconciler_Reconcile_def client_Get_def service_annotation_def
        split: option.splits)
next
  case None
  show ?thesis
  proof (cases "services w req")
    case absent: None
    then show ?thesis
      using None
      by (simp add: ServiceReconciler_Reconcile_def client_Get_def IsNotFound_def
          service_annotation_def)
  next
    case (Some svc)
    show ?thesis
      unfolding Service_Reconcile_found[OF Some None] drift_seen_iff
      using Some None
      by (auto simp: service_annotation_def Service_patchAnnotations_eq staged_nonempty
          staged_def map_add_def split: sum.splits)
  qed
qed

lemma Service_Reconcile_frame:
  "deployments (snd (ServiceReconciler_Reconcile hashs c w req)) = deployments w"
  "req' \<noteq> req \<Longrightarrow>
     services (snd (ServiceReconciler_Reconcile hashs c w req)) req' = services w req'"
proof -
  have "deployments (snd (ServiceReconciler_Reconcile hashs c w req)) = deployments w
      \<and> (req' \<noteq> req \<longrightarrow>
          services (snd (ServiceReconciler_Reconcile hashs c w req)) req' = services w req')"
  proof (cases "get_fault c")
    case (Some err)
    then show ?thesis by (simp add: ServiceReconciler_Reconcile_def client_Get_def)
  next
    case None
    show ?thesis
    proof (cases "services w req")
      case absent: None
      then show ?thesis
        using None
        by (simp add: ServiceReconciler_Reconcile_def client_Get_def IsNotFound_def)
    next
      case (Some svc)
      show ?thesis
        unfolding Service_Reconcile_found[OF Some None]
        using Some
        by (auto simp: Service_patchAnnotations_eq staged_nonempty split: sum.splits)
    qed
  qed
  then show "deployments (snd (ServiceReconciler_Reconcile hashs c w req)) = deployments w"
    "req' \<noteq> req \<Longrightarrow>
     services (snd (ServiceReconciler_Reconcile hashs c w req)) req' = services w req'"
    by simp_all
qed

section \<open>Evaluating the hash functions and the reconcilers on the concrete objects\<close>

lemmas marshal_defs = HashDeployment_def canonicalDeployment_def fingerprintPodTemplate_def
  fingerprintContainer_def fingerprintEnv_def fingerprintPort_def copyMap_def canonicalizeMap_def
  sort_Slice_def sortContainer_def container_less_def env_less_def port_less_def
  Marshal_DeploymentFingerprint_def Marshal_PodTemplateFingerprint_def
  Marshal_ContainerFingerprint_def Marshal_ContainerPortFingerprint_def
  Marshal_EnvVarFingerprint_def HashService_def canonicalService_def fingerprintServicePort_def
  serviceport_less_def Marshal_ServiceFingerprint_def Marshal_ServicePortFingerprint_def
  json_object_def json_array_def json_member_def json_string_def json_map_def json_int32_def
  escape_byte_def omitempty_def map_len_def Itoa_def hashJSON_def digits.simps

lemma web_hashes:
  "HashDeployment plain (scaled 2 (web l a)) = Inr baseline"
  "HashDeployment plain (scaled 3 (web l a)) = Inr scaled_hash"
  "scaled_hash \<noteq> baseline"
  "baseline \<noteq> []"
  by (simp_all add: baseline_def scaled_hash_def hash_of_def scaled_def marshal_defs web_def web_spec_def app_def
      EncodeToString_def hexdigit_def plain_def)

lemma dns_hashes:
  "HashService plain (dns l a) = Inr dns_hash"
  "dns_hash \<noteq> ''abc123''"
  by (simp_all add: dns_hash_def hash_of_def marshal_defs dns_def dns_port_def
      EncodeToString_def hexdigit_def plain_def)

lemma scaled_simps [simp]:
  "dep_Labels (scaled n d) = dep_Labels d" "dep_Annotations (scaled n d) = dep_Annotations d"
  "scaled n (scaled m d) = scaled n d"
  "(scaled n d)\<lparr>dep_Annotations := x\<rparr> = scaled n (d\<lparr>dep_Annotations := x\<rparr>)"
  by (simp_all add: scaled_def)

lemma web_simps [simp]:
  "dep_Labels (web l a) = l" "dep_Annotations (web l a) = a"
  "(web l a)\<lparr>dep_Annotations := x\<rparr> = web l x"
  by (simp_all add: web_def)

lemma dns_simps [simp]:
  "svc_Labels (dns l a) = l" "svc_Annotations (dns l a) = a"
  "(dns l a)\<lparr>svc_Annotations := x\<rparr> = dns l x"
  by (simp_all add: dns_def)

lemmas replay = reconcile_web_def reconcile_dns_def scale_def quiet_def
  DeploymentReconciler_Reconcile_def ServiceReconciler_Reconcile_def client_Get_def
  Deployment_patchAnnotations_eq Service_patchAnnotations_eq web_hashes dns_hashes opted_in_def
  Let_def declared_def cluster_of_def deployment_annotation_def service_annotation_def

section \<open>Reconciling twice\<close>

text \<open>
  Claim C1, as the code has it. Take an object that exists and two reconciliations in a
  row, with nothing changed in between, no API call failing and a first clock reading that
  is not the empty string. The second one leaves every annotation other than
  last-checked-at as the first left it. When the object is opted in and either has no
  baseline or is hashed without error, each reconciliation sets last-checked-at to its own
  clock reading, so the stored objects after the second are those after the first exactly
  when both read the same clock value; otherwise neither reconciliation changes anything
  in the cluster. The second reconciliation records a warning event exactly when the
  object is opted in, has a baseline, and hashes to something else: the event is recorded
  again on every reconciliation of a drifted object.
\<close>

theorem reconcile_twice:
  "(deployments w req = Some dep \<and> get_fault c1 = None \<and> patch_fault c1 = None
      \<and> get_fault c2 = None \<and> patch_fault c2 = None \<and> now c1 \<noteq> ''''
    \<longrightarrow> (let w1 = snd (DeploymentReconciler_Reconcile (HashDeployment S) c1 w req);
             w2 = snd (DeploymentReconciler_Reconcile (HashDeployment S) c2 w1 req);
             writes = writes_back (dep_Labels dep) (dep_Annotations dep) (HashDeployment S dep)
         in (\<forall>k. k \<noteq> AnnLastCheckedAt \<longrightarrow>
                deployment_annotation w2 req k = deployment_annotation w1 req k)
            \<and> (writes \<longrightarrow> deployment_annotation w1 req AnnLastCheckedAt = Some (now c1)
                          \<and> deployment_annotation w2 req AnnLastCheckedAt = Some (now c2))
            \<and> (\<not> writes \<longrightarrow> w1 = w \<and> w2 = w)
            \<and> (deployments w2 = deployments w1) = (\<not> writes \<or> now c2 = now c1)
            \<and> events w2 = events w1 @
                 (case drift_seen (dep_Labels dep) (dep_Annotations dep) (HashDeployment S dep) of
                    None \<Rightarrow> [] | Some (e, h) \<Rightarrow> [drift_event ''Deployment'' req e h])))
   \<and> (services w req = Some svc \<and> get_fault c1 = None \<and> patch_fault c1 = None
      \<and> get_fault c2 = None \<and> patch_fault c2 = None \<and> now c1 \<noteq> ''''
    \<longrightarrow> (let w1 = snd (ServiceReconciler_Reconcile (HashService S) c1 w req);
             w2 = snd (ServiceReconciler_Reconcile (HashService S) c2 w1 req);
             writes = writes_back (svc_Labels svc) (svc_Annotations svc) (HashService S svc)
         in (\<forall>k. k \<noteq> AnnLastCheckedAt \<longrightarrow>
                service_annotation w2 req k = service_annotation w1 req k)
            \<and> (writes \<longrightarrow> service_annotation w1 req AnnLastCheckedAt = Some (now c1)
                          \<and> service_annotation w2 req AnnLastCheckedAt = Some (now c2))
            \<and> (\<not> writes \<longrightarrow> w1 = w \<and> w2 = w)
            \<and> (services w2 = services w1) = (\<not> writes \<or> now c2 = now c1)
            \<and> events w2 = events w1 @
                 (case drift_seen (svc_Labels svc) (svc_Annotations svc) (HashService S svc) of
                    None \<Rightarrow> [] | Some (e, h) \<Rightarrow> [drift_event ''Service'' req e h])))"
proof (intro conjI impI; elim conjE)
  assume h: "deployments w req = Some dep" "get_fault c1 = None" "patch_fault c1 = None"
    "get_fault c2 = None" "patch_fault c2 = None" "now c1 \<noteq> ''''"
  define w1 where "w1 = snd (DeploymentReconciler_Reconcile (HashDeployment S) c1 w req)"
  define w2 where "w2 = snd (DeploymentReconciler_Reconcile (HashDeployment S) c2 w1 req)"
  define W where "W = writes_back (dep_Labels dep) (dep_Annotations dep) (HashDeployment S dep)"
  note A = twice_Deployment[OF h, of S, folded w1_def, folded w2_def]
  note B = twice_Deployment_checked[OF h(1-5), of S, folded w1_def, folded w2_def, folded W_def]
  have "(deployments w2 = deployments w1) = (\<not> W \<or> now c2 = now c1)"
  proof (cases W)
    case True
    then show ?thesis
      using A B deployment_annotation_cong[of w2 w1 req AnnLastCheckedAt] by auto
  next
    case False
    then show ?thesis using B by simp
  qed
  with A B show "let w1 = snd (DeploymentReconciler_Reconcile (HashDeployment S) c1 w req);
             w2 = snd (DeploymentReconciler_Reconcile (HashDeployment S) c2 w1 req);
             writes = writes_back (dep_Labels dep) (dep_Annotations dep) (HashDeployment S dep)
         in (\<forall>k. k \<noteq> AnnLastCheckedAt \<longrightarrow>
                deployment_annotation w2 req k = deployment_annotation w1 req k)
            \<and> (writes \<longrightarrow> deployment_annotation w1 req AnnLastCheckedAt = Some (now c1)
                          \<and> deployment_annotation w2 req AnnLastCheckedAt = Some (now c2))
            \<and> (\<not> writes \<longrightarrow> w1 = w \<and> w2 = w)
            \<and> (deployments w2 = deployments w1) = (\<not> writes \<or> now c2 = now c1)
            \<and> events w2 = events w1 @
                 (case drift_seen (dep_Labels dep) (dep_Annotations dep) (HashDeployment S dep) of
                    None \<Rightarrow> [] | Some (e, h) \<Rightarrow> [drift_event ''Deployment'' req e h])"
    unfolding Let_def w1_def[symmetric] w2_def[symmetric] W_def[symmetric] by blast
next
  assume h: "services w req = Some svc" "get_fault c1 = None" "patch_fault c1 = None"
    "get_fault c2 = None" "patch_fault c2 = None" "now c1 \<noteq> ''''"
  define w1 where "w1 = snd (ServiceReconciler_Reconcile (HashService S) c1 w req)"
  define w2 where "w2 = snd (ServiceReconciler_Reconcile (HashService S) c2 w1 req)"
  define W where "W = writes_back (svc_Labels svc) (svc_Annotations svc) (HashService S svc)"
  note A = twice_Service[OF h, of S, folded w1_def, folded w2_def]
  note B = twice_Service_checked[OF h(1-5), of S, folded w1_def, folded w2_def, folded W_def]
  have "(services w2 = services w1) = (\<not> W \<or> now c2 = now c1)"
  proof (cases W)
    case True
    then show ?thesis
      using A B service_annotation_cong[of w2 w1 req AnnLastCheckedAt] by auto
  next
    case False
    then show ?thesis using B by simp
  qed
  with A B show "let w1 = snd (ServiceReconciler_Reconcile (HashService S) c1 w req);
             w2 = snd (ServiceReconciler_Reconcile (HashService S) c2 w1 req);
             writes = writes_back (svc_Labels svc) (svc_Annotations svc) (HashService S svc)
         in (\<forall>k. k \<noteq> AnnLastCheckedAt \<longrightarrow>
                service_annotation w2 req k = service_annotation w1 req k)
            \<and> (writes \<longrightarrow> service_annotation w1 req AnnLastCheckedAt = Some (now c1)
                          \<and> service_annotation w2 req AnnLastCheckedAt = Some (now c2))
            \<and> (\<not> writes \<longrightarrow> w1 = w \<and> w2 = w)
            \<and> (services w2 = services w1) = (\<not> writes \<or> now c2 = now c1)
            \<and> events w2 = events w1 @
                 (case drift_seen (svc_Labels svc) (svc_Annotations svc) (HashService S svc) of
                    None \<Rightarrow> [] | Some (e, h) \<Rightarrow> [drift_event ''Service'' req e h])"
    unfolding Let_def w1_def[symmetric] w2_def[symmetric] W_def[symmetric] by blast
qed

theorem reconcile_twice_witness:
  "deployments (scale 3 declared) web_key
       = Some (scaled 3 (web opted_in (Some [AnnExpectedHash \<mapsto> baseline])))
   \<and> deployment_annotation (reconcile_web ''2026-01-01T10:05:00Z'' episode1) web_key AnnDriftedAt
       = deployment_annotation episode1 web_key AnnDriftedAt
   \<and> deployment_annotation episode1 web_key AnnLastCheckedAt = Some ''2026-01-01T10:00:00Z''
   \<and> deployment_annotation (reconcile_web ''2026-01-01T10:05:00Z'' episode1) web_key
         AnnLastCheckedAt = Some ''2026-01-01T10:05:00Z''
   \<and> deployments (reconcile_web ''2026-01-01T10:05:00Z'' episode1) \<noteq> deployments episode1
   \<and> services (scale 3 declared) web_key
       = Some (dns opted_in (Some [AnnExpectedHash \<mapsto> ''abc123'']))
   \<and> service_annotation (reconcile_dns ''2026-01-01T10:05:00Z''
          (reconcile_dns ''2026-01-01T10:00:00Z'' (scale 3 declared))) web_key AnnDriftedAt
       = service_annotation (reconcile_dns ''2026-01-01T10:00:00Z'' (scale 3 declared)) web_key
           AnnDriftedAt
   \<and> service_annotation (reconcile_dns ''2026-01-01T10:05:00Z''
          (reconcile_dns ''2026-01-01T10:00:00Z'' (scale 3 declared))) web_key AnnLastCheckedAt
       = Some ''2026-01-01T10:05:00Z''
   \<and> services (reconcile_dns ''2026-01-01T10:05:00Z''
          (reconcile_dns ''2026-01-01T10:00:00Z'' (scale 3 declared)))
       \<noteq> services (reconcile_dns ''2026-01-01T10:00:00Z'' (scale 3 declared))
   \<and> reconcile_web ''2026-01-01T10:05:00Z''
         (reconcile_web ''2026-01-01T10:00:00Z'' (cluster_of (web None None) (dns None None)))
       = cluster_of (web None None) (dns None None)
   \<and> reconcile_dns ''2026-01-01T10:05:00Z''
         (reconcile_dns ''2026-01-01T10:00:00Z'' (cluster_of (web None None) (dns None None)))
       = cluster_of (web None None) (dns None None)"
proof -
  have d: "deployments (scale 3 declared) web_key
       = Some (scaled 3 (web opted_in (Some [AnnExpectedHash \<mapsto> baseline])))"
    by (simp add: scale_def declared_def cluster_of_def)
  have s: "services (scale 3 declared) web_key
       = Some (dns opted_in (Some [AnnExpectedHash \<mapsto> ''abc123'']))"
    by (simp add: scale_def declared_def cluster_of_def)
  have o: "deployments (cluster_of (web None None) (dns None None)) web_key = Some (web None None)"
    "services (cluster_of (web None None) (dns None None)) web_key = Some (dns None None)"
    by (simp_all add: cluster_of_def)
  have q: "get_fault (quiet t) = None" "patch_fault (quiet t) = None" "now (quiet t) = t" for t
    by (simp_all add: quiet_def)
  have W: "writes_back opted_in (Some [AnnExpectedHash \<mapsto> baseline]) (Inr scaled_hash)"
    "writes_back opted_in (Some [AnnExpectedHash \<mapsto> ''abc123'']) (Inr dns_hash)"
    "\<not> writes_back None a x" for a x
    by (simp_all add: writes_back_def opted_in_def)
  let ?t1 = "''2026-01-01T10:00:00Z''" and ?t2 = "''2026-01-01T10:05:00Z''"
  let ?off = "cluster_of (web None None) (dns None None)"
  note on = reconcile_twice[of "scale 3 declared" web_key
        "scaled 3 (web opted_in (Some [AnnExpectedHash \<mapsto> baseline]))"
        "quiet ?t1" "quiet ?t2" plain
        "dns opted_in (Some [AnnExpectedHash \<mapsto> ''abc123''])"]
  note off = reconcile_twice[of ?off web_key "web None None"
        "quiet ?t1" "quiet ?t2" plain "dns None None"]
  have a: "deployment_annotation (reconcile_web ?t2 episode1) web_key AnnDriftedAt
       = deployment_annotation episode1 web_key AnnDriftedAt"
    "deployment_annotation episode1 web_key AnnLastCheckedAt = Some ?t1"
    "deployment_annotation (reconcile_web ?t2 episode1) web_key AnnLastCheckedAt = Some ?t2"
    "deployments (reconcile_web ?t2 episode1) \<noteq> deployments episode1"
    using on[THEN conjunct1]
    by (simp_all add: d q W web_hashes Let_def episode1_def reconcile_web_def)
  have b: "service_annotation (reconcile_dns ?t2 (reconcile_dns ?t1 (scale 3 declared))) web_key
         AnnDriftedAt
       = service_annotation (reconcile_dns ?t1 (scale 3 declared)) web_key AnnDriftedAt"
    "service_annotation (reconcile_dns ?t2 (reconcile_dns ?t1 (scale 3 declared))) web_key
         AnnLastCheckedAt = Some ?t2"
    "services (reconcile_dns ?t2 (reconcile_dns ?t1 (scale 3 declared)))
       \<noteq> services (reconcile_dns ?t1 (scale 3 declared))"
    using on[THEN conjunct2]
    by (simp_all add: s q W dns_hashes Let_def reconcile_dns_def)
  have hd: "deployments ?off web_key = Some (web None None) \<and> get_fault (quiet ?t1) = None
      \<and> patch_fault (quiet ?t1) = None \<and> get_fault (quiet ?t2) = None
      \<and> patch_fault (quiet ?t2) = None \<and> now (quiet ?t1) \<noteq> ''''"
    by (simp add: o q)
  have hs: "services ?off web_key = Some (dns None None) \<and> get_fault (quiet ?t1) = None
      \<and> patch_fault (quiet ?t1) = None \<and> get_fault (quiet ?t2) = None
      \<and> patch_fault (quiet ?t2) = None \<and> now (quiet ?t1) \<noteq> ''''"
    by (simp add: o q)
  have nW: "\<not> writes_back (dep_Labels (web None None)) a x"
    "\<not> writes_back (svc_Labels (dns None None)) a x" for a x
    by (simp_all add: W)
  note rd = off[THEN conjunct1, unfolded Let_def, THEN mp, OF hd]
  note rs = off[THEN conjunct2, unfolded Let_def, THEN mp, OF hs]
  have c: "reconcile_web ?t2 (reconcile_web ?t1 ?off) = ?off"
    unfolding reconcile_web_def
    using rd[THEN conjunct2, THEN conjunct2, THEN conjunct1, THEN mp, OF nW(1)]
    by (rule conjunct2)
  have e: "reconcile_dns ?t2 (reconcile_dns ?t1 ?off) = ?off"
    unfolding reconcile_dns_def
    using rs[THEN conjunct2, THEN conjunct2, THEN conjunct1, THEN mp, OF nW(2)]
    by (rule conjunct2)
  show ?thesis
    using a b c e d s by simp
qed

text \<open>
  The claim as stated fails on the deployment scaled away from its baseline: the first
  reconciliation records the drift and one event, the second, five minutes later with
  nothing changed, records a second event and rewrites last-checked-at.
\<close>

theorem second_reconcile_notifies_again:
  "deployment_annotation episode1 web_key AnnDrifted = Some ''true''
   \<and> length (events episode1) = 1
   \<and> length (events (reconcile_web ''2026-01-01T10:05:00Z'' episode1)) = 2
   \<and> deployment_annotation (reconcile_web ''2026-01-01T10:05:00Z'' episode1) web_key
         AnnLastCheckedAt
       \<noteq> deployment_annotation episode1 web_key AnnLastCheckedAt"
  by (simp add: episode1_def replay)

section \<open>The drifted-at annotation\<close>

text \<open>
  Claim C2, as the code has it. Once drifted-at holds a value that is not empty, no
  reconciliation changes it, whatever the hash function returns: not while the hashes
  differ, not when they are found equal and drifted is set to false, and not when they
  differ again afterwards. It is written by a reconciliation that detects drift while
  drifted-at is absent or empty, and then it is set to the clock reading; and it is
  written by no other: after a reconciliation of any outcome, drifted-at on the object of
  the request is the clock reading when no API call failed, drift was detected and
  drifted-at was absent or empty, and is what it was before in every other case, while
  the annotations of every other object, and of the objects of the other kind, are what
  they were.
\<close>

theorem drifted_at_written_once:
  "(deployment_annotation w req AnnDriftedAt = Some t \<and> t \<noteq> ''''
    \<longrightarrow> deployment_annotation (snd (DeploymentReconciler_Reconcile hashd c w req)) req
          AnnDriftedAt = Some t)
   \<and> (deployments w req = Some dep \<and> get_fault c = None \<and> patch_fault c = None
      \<and> lookup (dep_Labels dep) LabelEnabled = ''true''
      \<and> lookup (dep_Annotations dep) AnnExpectedHash = e \<and> e \<noteq> ''''
      \<and> hashd dep = Inr h \<and> h \<noteq> e \<and> lookup (dep_Annotations dep) AnnDriftedAt = ''''
    \<longrightarrow> deployment_annotation (snd (DeploymentReconciler_Reconcile hashd c w req)) req
          AnnDriftedAt = Some (now c))
   \<and> (service_annotation w req AnnDriftedAt = Some t \<and> t \<noteq> ''''
    \<longrightarrow> service_annotation (snd (ServiceReconciler_Reconcile hashs c w req)) req
          AnnDriftedAt = Some t)
   \<and> (services w req = Some svc \<and> get_fault c = None \<and> patch_fault c = None
      \<and> lookup (svc_Labels svc) LabelEnabled = ''true''
      \<and> lookup (svc_Annotations svc) AnnExpectedHash = e' \<and> e' \<noteq> ''''
      \<and> hashs svc = Inr h' \<and> h' \<noteq> e' \<and> lookup (svc_Annotations svc) AnnDriftedAt = ''''
    \<longrightarrow> service_annotation (snd (ServiceReconciler_Reconcile hashs c w req)) req
          AnnDriftedAt = Some (now c))
   \<and> deployment_annotation (snd (DeploymentReconciler_Reconcile hashd c w req)) req AnnDriftedAt
       = (case deployments w req of
            None \<Rightarrow> None
          | Some d \<Rightarrow>
              if get_fault c = None \<and> patch_fault c = None
                 \<and> drift_seen (dep_Labels d) (dep_Annotations d) (hashd d) \<noteq> None
                 \<and> lookup (dep_Annotations d) AnnDriftedAt = ''''
              then Some (now c) else deployment_annotation w req AnnDriftedAt)
   \<and> service_annotation (snd (ServiceReconciler_Reconcile hashs c w req)) req AnnDriftedAt
       = (case services w req of
            None \<Rightarrow> None
          | Some s \<Rightarrow>
              if get_fault c = None \<and> patch_fault c = None
                 \<and> drift_seen (svc_Labels s) (svc_Annotations s) (hashs s) \<noteq> None
                 \<and> lookup (svc_Annotations s) AnnDriftedAt = ''''
              then Some (now c) else service_annotation w req AnnDriftedAt)
   \<and> (other \<noteq> req \<longrightarrow>
        deployment_annotation (snd (DeploymentReconciler_Reconcile hashd c w req)) other k
          = deployment_annotation w other k
        \<and> service_annotation (snd (ServiceReconciler_Reconcile hashs c w req)) other k
          = service_annotation w other k)
   \<and> service_annotation (snd (DeploymentReconciler_Reconcile hashd c w req)) any k
       = service_annotation w any k
   \<and> deployment_annotation (snd (ServiceReconciler_Reconcile hashs c w req)) any k
       = deployment_annotation w any k"
proof -
  have f1: "other \<noteq> req \<longrightarrow>
        deployment_annotation (snd (DeploymentReconciler_Reconcile hashd c w req)) other k
          = deployment_annotation w other k
        \<and> service_annotation (snd (ServiceReconciler_Reconcile hashs c w req)) other k
          = service_annotation w other k"
    by (simp add: deployment_annotation_def service_annotation_def
        Deployment_Reconcile_frame(2) Service_Reconcile_frame(2))
  have f2: "service_annotation (snd (DeploymentReconciler_Reconcile hashd c w req)) any k
       = service_annotation w any k"
    "deployment_annotation (snd (ServiceReconciler_Reconcile hashs c w req)) any k
       = deployment_annotation w any k"
    by (simp_all add: deployment_annotation_def service_annotation_def
        Deployment_Reconcile_frame(1) Service_Reconcile_frame(1))
  show ?thesis
    using drifted_at_kept_Deployment[of w req t hashd c]
      drifted_at_set_Deployment[of w req dep c e hashd h]
      drifted_at_kept_Service[of w req t hashs c]
      drifted_at_set_Service[of w req svc c e' hashs h']
      drifted_at_after_Deployment[of hashd c w req]
      drifted_at_after_Service[of hashs c w req] f1 f2
    by blast
qed

theorem drifted_at_written_once_witness:
  "deployment_annotation (reconcile_dns ''2026-01-01T10:00:00Z'' episode1) web_key AnnDriftedAt
       = Some ''2026-01-01T10:00:00Z''
   \<and> deployment_annotation
         (reconcile_web ''2026-01-01T11:00:00Z'' (reconcile_dns ''2026-01-01T10:00:00Z'' episode1))
         web_key AnnDriftedAt = Some ''2026-01-01T10:00:00Z''
   \<and> service_annotation (reconcile_dns ''2026-01-01T10:00:00Z'' episode1) web_key AnnDriftedAt
       = Some ''2026-01-01T10:00:00Z''
   \<and> service_annotation
         (reconcile_dns ''2026-01-01T11:00:00Z'' (reconcile_dns ''2026-01-01T10:00:00Z'' episode1))
         web_key AnnDriftedAt = Some ''2026-01-01T10:00:00Z''
   \<and> lookup (dep_Annotations (scaled 3 (web opted_in (Some [AnnExpectedHash \<mapsto> baseline]))))
         AnnDriftedAt = ''''
   \<and> deployment_annotation (reconcile_web ''2026-01-01T10:00:00Z'' (scale 3 declared)) web_key
         AnnDriftedAt = Some ''2026-01-01T10:00:00Z''
   \<and> lookup (svc_Annotations (dns opted_in (Some [AnnExpectedHash \<mapsto> ''abc123''])))
         AnnDriftedAt = ''''
   \<and> service_annotation (reconcile_dns ''2026-01-01T10:00:00Z'' (scale 3 declared)) web_key
         AnnDriftedAt = Some ''2026-01-01T10:00:00Z''
   \<and> deployment_annotation (reconcile_web ''2026-01-01T10:00:00Z'' (scale 2 declared)) web_key
         AnnDrifted = Some ''false''
   \<and> deployment_annotation (reconcile_web ''2026-01-01T10:00:00Z'' (scale 2 declared)) web_key
         AnnDriftedAt = None
   \<and> deployment_annotation
         (reconcile_web ''2026-01-01T10:00:00Z'' (cluster_of (web opted_in None) (dns opted_in None)))
         web_key AnnDriftedAt = None
   \<and> service_annotation
         (reconcile_dns ''2026-01-01T10:00:00Z'' (cluster_of (web opted_in None) (dns opted_in None)))
         web_key AnnDriftedAt = None
   \<and> deployment_annotation
         (reconcile_web ''2026-01-01T10:00:00Z'' (cluster_of (web None None) (dns None None)))
         web_key AnnDriftedAt = None
   \<and> service_annotation (reconcile_web ''2026-01-01T10:00:00Z'' (scale 3 declared)) web_key
         AnnDriftedAt = None"
proof -
  have q: "get_fault (quiet t) = None" "patch_fault (quiet t) = None" "now (quiet t) = t" for t
    by (simp_all add: quiet_def)
  have d: "deployments (scale 3 declared) web_key
       = Some (scaled 3 (web opted_in (Some [AnnExpectedHash \<mapsto> baseline])))"
    by (simp add: scale_def declared_def cluster_of_def)
  have d2: "deployments (scale 2 declared) web_key
       = Some (scaled 2 (web opted_in (Some [AnnExpectedHash \<mapsto> baseline])))"
    by (simp add: scale_def declared_def cluster_of_def)
  have s: "services (scale 3 declared) web_key
       = Some (dns opted_in (Some [AnnExpectedHash \<mapsto> ''abc123'']))"
    by (simp add: scale_def declared_def cluster_of_def)
  have before:
    "deployment_annotation (reconcile_dns ''2026-01-01T10:00:00Z'' episode1) web_key AnnDriftedAt
       = Some ''2026-01-01T10:00:00Z''"
    "service_annotation (reconcile_dns ''2026-01-01T10:00:00Z'' episode1) web_key AnnDriftedAt
       = Some ''2026-01-01T10:00:00Z''"
    by (simp_all add: episode1_def replay)
  have false: "deployment_annotation (reconcile_web ''2026-01-01T10:00:00Z'' (scale 2 declared))
      web_key AnnDrifted = Some ''false''"
    by (simp add: replay)
  note four = conjunct2[THEN conjunct2, THEN conjunct2, THEN conjunct2]
  note clean = drifted_at_written_once[of "scale 2 declared" web_key _ "HashDeployment plain"
      "quiet ''2026-01-01T10:00:00Z''", THEN four, THEN conjunct1,
      folded reconcile_web_def]
  have a: "deployment_annotation (reconcile_web ''2026-01-01T10:00:00Z'' (scale 2 declared))
      web_key AnnDriftedAt = None"
    unfolding clean
    by (simp add: d2 q web_hashes drift_seen_def opted_in_def deployment_annotation_def)
  note nobase = drifted_at_written_once[of "cluster_of (web opted_in None) (dns opted_in None)"
      web_key _ "HashDeployment plain" "quiet ''2026-01-01T10:00:00Z''" _ _ _ "HashService plain",
      THEN four, folded reconcile_web_def reconcile_dns_def]
  have b: "deployment_annotation
         (reconcile_web ''2026-01-01T10:00:00Z'' (cluster_of (web opted_in None) (dns opted_in None)))
         web_key AnnDriftedAt = None"
     "service_annotation
         (reconcile_dns ''2026-01-01T10:00:00Z'' (cluster_of (web opted_in None) (dns opted_in None)))
         web_key AnnDriftedAt = None"
    unfolding nobase[THEN conjunct1] nobase[THEN conjunct2, THEN conjunct1]
    by (simp_all add: cluster_of_def drift_seen_def deployment_annotation_def
        service_annotation_def)
  note out = drifted_at_written_once[of "cluster_of (web None None) (dns None None)"
      web_key _ "HashDeployment plain" "quiet ''2026-01-01T10:00:00Z''",
      THEN four, THEN conjunct1, folded reconcile_web_def]
  have c: "deployment_annotation
         (reconcile_web ''2026-01-01T10:00:00Z'' (cluster_of (web None None) (dns None None)))
         web_key AnnDriftedAt = None"
    unfolding out
    by (simp add: cluster_of_def drift_seen_def deployment_annotation_def)
  note other = drifted_at_written_once[of "scale 3 declared" web_key _ "HashDeployment plain"
      "quiet ''2026-01-01T10:00:00Z''", THEN four, THEN conjunct2, THEN conjunct2,
      THEN conjunct2, THEN conjunct1, folded reconcile_web_def]
  have e: "service_annotation (reconcile_web ''2026-01-01T10:00:00Z'' (scale 3 declared)) web_key
         AnnDriftedAt = None"
    unfolding other by (simp add: service_annotation_def s)
  have old: "deployment_annotation
         (reconcile_web ''2026-01-01T11:00:00Z'' (reconcile_dns ''2026-01-01T10:00:00Z'' episode1))
         web_key AnnDriftedAt = Some ''2026-01-01T10:00:00Z''
   \<and> service_annotation
         (reconcile_dns ''2026-01-01T11:00:00Z'' (reconcile_dns ''2026-01-01T10:00:00Z'' episode1))
         web_key AnnDriftedAt = Some ''2026-01-01T10:00:00Z''
   \<and> lookup (dep_Annotations (scaled 3 (web opted_in (Some [AnnExpectedHash \<mapsto> baseline]))))
         AnnDriftedAt = ''''
   \<and> deployment_annotation (reconcile_web ''2026-01-01T10:00:00Z'' (scale 3 declared)) web_key
         AnnDriftedAt = Some ''2026-01-01T10:00:00Z''
   \<and> lookup (svc_Annotations (dns opted_in (Some [AnnExpectedHash \<mapsto> ''abc123''])))
         AnnDriftedAt = ''''
   \<and> service_annotation (reconcile_dns ''2026-01-01T10:00:00Z'' (scale 3 declared)) web_key
         AnnDriftedAt = Some ''2026-01-01T10:00:00Z''"
    using drifted_at_written_once[of "reconcile_dns ''2026-01-01T10:00:00Z'' episode1" web_key
        "''2026-01-01T10:00:00Z''" "HashDeployment plain" "quiet ''2026-01-01T11:00:00Z''"
        _ _ _ "HashService plain",
        THEN conjunct1, folded reconcile_web_def reconcile_dns_def]
      drifted_at_written_once[of "reconcile_dns ''2026-01-01T10:00:00Z'' episode1" web_key
        "''2026-01-01T10:00:00Z''" "HashDeployment plain" "quiet ''2026-01-01T11:00:00Z''"
        _ _ _ "HashService plain",
        THEN conjunct2, THEN conjunct2, THEN conjunct1, folded reconcile_web_def reconcile_dns_def]
      drifted_at_written_once[of "scale 3 declared" web_key _ "HashDeployment plain"
        "quiet ''2026-01-01T10:00:00Z''"
        "scaled 3 (web opted_in (Some [AnnExpectedHash \<mapsto> baseline]))" baseline scaled_hash
        "HashService plain" "dns opted_in (Some [AnnExpectedHash \<mapsto> ''abc123''])"
        "''abc123''" dns_hash,
        THEN conjunct2, THEN conjunct1, folded reconcile_web_def reconcile_dns_def]
      drifted_at_written_once[of "scale 3 declared" web_key _ "HashDeployment plain"
        "quiet ''2026-01-01T10:00:00Z''"
        "scaled 3 (web opted_in (Some [AnnExpectedHash \<mapsto> baseline]))" baseline scaled_hash
        "HashService plain" "dns opted_in (Some [AnnExpectedHash \<mapsto> ''abc123''])"
        "''abc123''" dns_hash,
        THEN conjunct2, THEN conjunct2, THEN conjunct2, THEN conjunct1,
        folded reconcile_web_def reconcile_dns_def]
    by (simp add: before d s q web_hashes dns_hashes opted_in_def)
  show ?thesis
    using before false a b c e old by simp
qed

text \<open>
  The claim as stated fails on the three reconciliations of the scaled deployment: the
  drift found at 10:00 is resolved at 11:00 (drifted is false) and found again at 12:00,
  and drifted-at still reads 10:00.
\<close>

theorem drifted_at_survives_resolution:
  "deployment_annotation episode1 web_key AnnDriftedAt = Some ''2026-01-01T10:00:00Z''
   \<and> deployment_annotation episode2 web_key AnnDrifted = Some ''false''
   \<and> deployment_annotation episode3 web_key AnnDrifted = Some ''true''
   \<and> deployment_annotation episode3 web_key AnnLastCheckedAt = Some ''2026-01-01T12:00:00Z''
   \<and> deployment_annotation episode3 web_key AnnDriftedAt = Some ''2026-01-01T10:00:00Z''
   \<and> deployment_annotation episode3 web_key AnnDriftedAt \<noteq> Some ''2026-01-01T12:00:00Z''"
  by (simp add: episode3_def episode2_def episode1_def replay)
section \<open>The hash functions\<close>

subsection \<open>The hexadecimal text determines the digest\<close>

lemma hexdigit_code:
  assumes "n < 16"
  shows "(of_char (hexdigit n) :: nat) = (if n < 10 then 48 + n else 87 + n)"
proof -
  have "\<forall>k \<in> set [0..<16].
          (of_char (hexdigit k) :: nat) = (if k < 10 then 48 + k else 87 + k)"
    by code_simp
  with assms show ?thesis by simp
qed

lemma hexdigit_inj:
  assumes "a < 16" "b < 16" "hexdigit a = hexdigit b"
  shows "a = b"
proof -
  have "(of_char (hexdigit a) :: nat) = of_char (hexdigit b)" using assms(3) by simp
  then show ?thesis
    unfolding hexdigit_code[OF assms(1)] hexdigit_code[OF assms(2)]
    by (simp split: if_splits)
qed

lemma hex_byte_inj:
  assumes "[hexdigit (of_char c div 16), hexdigit (of_char c mod 16)]
         = [hexdigit (of_char d div 16), hexdigit (of_char d mod 16)]"
  shows "c = d"
proof -
  have c: "(of_char c :: nat) < 256" and d: "(of_char d :: nat) < 256"
    by (simp_all add: of_char_def) 
  have "(of_char c :: nat) div 16 < 16" "(of_char d :: nat) div 16 < 16"
    using c d by presburger+
  then have "(of_char c :: nat) div 16 = of_char d div 16"
    using assms by (intro hexdigit_inj) auto
  moreover have "(of_char c :: nat) mod 16 = of_char d mod 16"
    using assms by (intro hexdigit_inj) auto
  ultimately have "(of_char c :: nat) = of_char d"
    by (metis div_mult_mod_eq)
  then show ?thesis by simp
qed

lemma EncodeToString_inj: "EncodeToString x = EncodeToString y \<Longrightarrow> x = y"
proof (induction x arbitrary: y)
  case Nil
  then show ?case by (cases y) (simp_all add: EncodeToString_def)
next
  case (Cons c x)
  then obtain d y' where y: "y = d # y'"
    by (cases y) (simp_all add: EncodeToString_def)
  from Cons.prems y have "c = d" "EncodeToString x = EncodeToString y'"
    using hex_byte_inj[of c d] by (simp_all add: EncodeToString_def)
  with Cons.IH y show ?case by simp
qed

lemma HashDeployment_bytes:
  "Marshal_DeploymentFingerprint (canonicalDeployment d) = Inr a
   \<Longrightarrow> HashDeployment Sum256 d = Inr (EncodeToString (Sum256 a))"
  by (simp add: HashDeployment_def hashJSON_def)

lemma HashService_bytes:
  "Marshal_ServiceFingerprint (canonicalService s) = Inr a
   \<Longrightarrow> HashService Sum256 s = Inr (EncodeToString (Sum256 a))"
  by (simp add: HashService_def hashJSON_def)

lemma replicas_member:
  assumes "ds_Strategy (dep_Spec d1) = ds_Strategy (dep_Spec d2)"
    "ds_Template (dep_Spec d1) = ds_Template (dep_Spec d2)"
    "ds_Replicas (dep_Spec d1) = None" "ds_Replicas (dep_Spec d2) = Some n"
    "Marshal_DeploymentFingerprint (canonicalDeployment d2) = Inr b"
  shows \<open>\<exists>a. Marshal_DeploymentFingerprint (canonicalDeployment d1) = Inr a
           \<and> b = ''{"replicas":'' @ json_int32 n @ '','' @ tl a
           \<and> take 3 a = ''{"s'' \<and> take 3 b = ''{"r''\<close>
  using assms
  by (auto simp: Marshal_DeploymentFingerprint_def canonicalDeployment_def Let_def
      json_object_def json_member_def json_string_def escape_byte_def
      split: sum.splits)

text \<open>
  Claim C8. Two deployments whose specifications agree on the strategy and the template,
  one without a replica count and one with a count (zero in particular), have different
  canonical serializations whenever there is one: the second starts with the member
  \<open>replicas\<close> and continues as the first, which starts with \<open>strategy\<close>. Their hashes
  are the digests of these two different texts, so they can only be equal if the digest
  gives the same value on both.
\<close>

theorem unset_replicas_differ_from_zero:
  \<open>ds_Replicas (dep_Spec d1) = None \<and> ds_Replicas (dep_Spec d2) = Some n
   \<and> ds_Strategy (dep_Spec d1) = ds_Strategy (dep_Spec d2)
   \<and> ds_Template (dep_Spec d1) = ds_Template (dep_Spec d2)
   \<and> Marshal_DeploymentFingerprint (canonicalDeployment d2) = Inr b
   \<longrightarrow> (\<exists>a. Marshal_DeploymentFingerprint (canonicalDeployment d1) = Inr a
           \<and> a \<noteq> b
           \<and> b = ''{"replicas":'' @ json_int32 n @ '','' @ tl a
           \<and> HashDeployment Sum256 d1 = Inr (EncodeToString (Sum256 a))
           \<and> HashDeployment Sum256 d2 = Inr (EncodeToString (Sum256 b))
           \<and> (HashDeployment Sum256 d1 = HashDeployment Sum256 d2 \<longrightarrow> Sum256 a = Sum256 b))\<close>
proof (intro impI, elim conjE)
  assume h: "ds_Replicas (dep_Spec d1) = None" "ds_Replicas (dep_Spec d2) = Some n"
    "ds_Strategy (dep_Spec d1) = ds_Strategy (dep_Spec d2)"
    "ds_Template (dep_Spec d1) = ds_Template (dep_Spec d2)"
    "Marshal_DeploymentFingerprint (canonicalDeployment d2) = Inr b"
  from replicas_member[OF h(3,4,1,2,5)] obtain a where
    a: "Marshal_DeploymentFingerprint (canonicalDeployment d1) = Inr a"
    and b: \<open>b = ''{"replicas":'' @ json_int32 n @ '','' @ tl a\<close>
    and ab: \<open>take 3 a = ''{"s''\<close> \<open>take 3 b = ''{"r''\<close>
    by blast
  from ab have ne: "a \<noteq> b" by auto
  have "Sum256 a = Sum256 b" if "HashDeployment Sum256 d1 = HashDeployment Sum256 d2"
    using that HashDeployment_bytes[OF a, of Sum256] HashDeployment_bytes[OF h(5), of Sum256]
    by (simp add: EncodeToString_inj)
  with a b ne HashDeployment_bytes[OF a, of Sum256] HashDeployment_bytes[OF h(5), of Sum256]
  show \<open>\<exists>a. Marshal_DeploymentFingerprint (canonicalDeployment d1) = Inr a
           \<and> a \<noteq> b
           \<and> b = ''{"replicas":'' @ json_int32 n @ '','' @ tl a
           \<and> HashDeployment Sum256 d1 = Inr (EncodeToString (Sum256 a))
           \<and> HashDeployment Sum256 d2 = Inr (EncodeToString (Sum256 b))
           \<and> (HashDeployment Sum256 d1 = HashDeployment Sum256 d2 \<longrightarrow> Sum256 a = Sum256 b)\<close>
    by blast
qed

theorem unset_replicas_differ_from_zero_witness:
  \<open>Marshal_DeploymentFingerprint (canonicalDeployment (scaled 0 (web None None)))
     = Inr ''{"replicas":0,"strategy":{},"template":{"containers":[{"name":"app","image":"nginx:1.25","resources":{}}]}}''
   \<and> Marshal_DeploymentFingerprint (canonicalDeployment (unscaled (web None None)))
     = Inr ''{"strategy":{},"template":{"containers":[{"name":"app","image":"nginx:1.25","resources":{}}]}}''
   \<and> HashDeployment plain (unscaled (web None None))
       \<noteq> HashDeployment plain (scaled 0 (web None None))\<close>
proof -
  define A where \<open>A = ''{"strategy":{},"template":{"containers":[{"name":"app","image":"nginx:1.25","resources":{}}]}}''\<close>
  define B where \<open>B = ''{"replicas":0,"strategy":{},"template":{"containers":[{"name":"app","image":"nginx:1.25","resources":{}}]}}''\<close>
  have b: "Marshal_DeploymentFingerprint (canonicalDeployment (scaled 0 (web None None))) = Inr B"
    by (simp add: B_def marshal_defs scaled_def web_def web_spec_def app_def)
  have a: "Marshal_DeploymentFingerprint (canonicalDeployment (unscaled (web None None))) = Inr A"
    by (simp add: A_def marshal_defs unscaled_def web_def web_spec_def app_def)
  have hyp: "ds_Replicas (dep_Spec (unscaled (web None None))) = None
     \<and> ds_Replicas (dep_Spec (scaled 0 (web None None))) = Some 0
     \<and> ds_Strategy (dep_Spec (unscaled (web None None)))
         = ds_Strategy (dep_Spec (scaled 0 (web None None)))
     \<and> ds_Template (dep_Spec (unscaled (web None None)))
         = ds_Template (dep_Spec (scaled 0 (web None None)))
     \<and> Marshal_DeploymentFingerprint (canonicalDeployment (scaled 0 (web None None))) = Inr B"
    using b by (simp add: scaled_def unscaled_def)
  from unset_replicas_differ_from_zero[of "unscaled (web None None)" "scaled 0 (web None None)"
      0 B plain, THEN mp, OF hyp]
  have "HashDeployment plain (unscaled (web None None))
          = HashDeployment plain (scaled 0 (web None None)) \<longrightarrow> plain A = plain B"
    using a by auto
  moreover have "A \<noteq> B" by (simp add: A_def B_def)
  ultimately have "HashDeployment plain (unscaled (web None None))
       \<noteq> HashDeployment plain (scaled 0 (web None None))"
    by (auto simp: plain_def)
  with a b show ?thesis by (simp add: A_def B_def)
qed

subsection \<open>Environment variables with an indirect source\<close>

lemma insert_left_mset: "mset (insert_left lt x ys) = add_mset x (mset ys)"
  by (induction ys) simp_all

lemma foldl_insert_left_mset:
  "mset (foldl (\<lambda>acc x. insert_left lt x acc) acc xs) = mset acc + mset xs"
  by (induction xs arbitrary: acc) (simp_all add: insert_left_mset)

lemma sort_Slice_mset: "mset (sort_Slice lt xs) = mset xs"
  by (simp add: sort_Slice_def foldl_insert_left_mset)

lemma map_sort_Slice_mset: "mset (map f (sort_Slice lt xs)) = mset (map f xs)"
  by (metis mset_map sort_Slice_mset)

lemma fingerprintEnv_ValueFrom: "fingerprintEnv (e\<lparr>ev_ValueFrom := v\<rparr>) = fingerprintEnv e"
  by (simp add: fingerprintEnv_def)

lemma fingerprintContainer_ValueFrom:
  "fingerprintContainer (c\<lparr>c_Env := map (\<lambda>e. e\<lparr>ev_ValueFrom := None\<rparr>) (c_Env c)\<rparr>)
     = fingerprintContainer c"
  by (simp add: fingerprintContainer_def fingerprintEnv_ValueFrom comp_def)

lemma canonicalDeployment_ValueFrom:
  "canonicalDeployment (without_ValueFrom d) = canonicalDeployment d"
  by (simp add: canonicalDeployment_def without_ValueFrom_def fingerprintPodTemplate_def
      fingerprintContainer_ValueFrom comp_def Let_def)

text \<open>
  Claim C4, as the code has it. An environment variable with an indirect source is not
  dropped. The canonical fingerprint has the containers of the template, each with one
  environment entry per environment variable, made of its name and its literal value;
  the name is always written to the JSON and the value when it is not empty. Only the
  \<open>valueFrom\<close> reference is left out, so clearing (hence setting or changing) the
  references leaves the fingerprint and the hash as they are.
\<close>

theorem value_from_is_ignored_entry_is_kept:
  "canonicalDeployment (without_ValueFrom d) = canonicalDeployment d
   \<and> HashDeployment Sum256 (without_ValueFrom d) = HashDeployment Sum256 d
   \<and> mset (ptf_Containers (df_Template (canonicalDeployment d)))
       = mset (map (sortContainer \<circ> fingerprintContainer)
                (pt_Containers (ds_Template (dep_Spec d))))
   \<and> mset (cf_Env (sortContainer (fingerprintContainer c)))
       = mset (map (\<lambda>e. \<lparr>evf_Name = ev_Name e, evf_Value = ev_Value e\<rparr>) (c_Env c))
   \<and> Marshal_EnvVarFingerprint \<lparr>evf_Name = ev_Name e, evf_Value = ev_Value e\<rparr>
       = json_object ((''name'', json_string (ev_Name e))
           # (if ev_Value e = '''' then [] else [(''value'', json_string (ev_Value e))]))"
proof (intro conjI)
  show "canonicalDeployment (without_ValueFrom d) = canonicalDeployment d"
    by (rule canonicalDeployment_ValueFrom)
  show "HashDeployment Sum256 (without_ValueFrom d) = HashDeployment Sum256 d"
    by (simp add: HashDeployment_def canonicalDeployment_ValueFrom)
  show "mset (ptf_Containers (df_Template (canonicalDeployment d)))
       = mset (map (sortContainer \<circ> fingerprintContainer)
                (pt_Containers (ds_Template (dep_Spec d))))"
    by (simp add: canonicalDeployment_def Let_def fingerprintPodTemplate_def
        sort_Slice_mset multiset.map_comp)
  show "mset (cf_Env (sortContainer (fingerprintContainer c)))
       = mset (map (\<lambda>e. \<lparr>evf_Name = ev_Name e, evf_Value = ev_Value e\<rparr>) (c_Env c))"
    by (simp add: sortContainer_def fingerprintContainer_def sort_Slice_mset
        fun_eq_iff[THEN iffD2, OF allI, OF fingerprintEnv_def])
  show "Marshal_EnvVarFingerprint \<lparr>evf_Name = ev_Name e, evf_Value = ev_Value e\<rparr>
       = json_object ((''name'', json_string (ev_Name e))
           # (if ev_Value e = [] then [] else [(''value'', json_string (ev_Value e))]))"
    by (simp add: Marshal_EnvVarFingerprint_def omitempty_def)
qed

text \<open>
  The claim as stated fails on a container with one environment variable taken from a
  secret: the entry is written to the canonical JSON under its name, so the deployment
  with it, the one without it and the one where it is renamed have three different
  serializations and hashes.
\<close>

theorem indirect_env_entry_is_hashed:
  \<open>Marshal_DeploymentFingerprint
       (canonicalDeployment (web_with [app\<lparr>c_Env := [secret_env ''DB_PASSWORD'']\<rparr>]))
     = Inr ''{"replicas":2,"strategy":{},"template":{"containers":[{"name":"app","image":"nginx:1.25","env":[{"name":"DB_PASSWORD"}],"resources":{}}]}}''
   \<and> Marshal_DeploymentFingerprint (canonicalDeployment (web_with [app]))
     = Inr ''{"replicas":2,"strategy":{},"template":{"containers":[{"name":"app","image":"nginx:1.25","resources":{}}]}}''
   \<and> Marshal_DeploymentFingerprint
       (canonicalDeployment (web_with [app\<lparr>c_Env := [secret_env ''DB_PASS'']\<rparr>]))
     = Inr ''{"replicas":2,"strategy":{},"template":{"containers":[{"name":"app","image":"nginx:1.25","env":[{"name":"DB_PASS"}],"resources":{}}]}}''
   \<and> HashDeployment plain (web_with [app\<lparr>c_Env := [secret_env ''DB_PASSWORD'']\<rparr>])
       \<noteq> HashDeployment plain (web_with [app])
   \<and> HashDeployment plain (web_with [app\<lparr>c_Env := [secret_env ''DB_PASSWORD'']\<rparr>])
       \<noteq> HashDeployment plain (web_with [app\<lparr>c_Env := [secret_env ''DB_PASS'']\<rparr>])\<close>
  by (simp add: marshal_defs web_with_def web_spec_def app_def secret_env_def plain_def
      EncodeToString_def hexdigit_def)

subsection \<open>Empty strings in maps and in fields\<close>

lemma length_join_comma:
  "xs \<noteq> [] \<Longrightarrow> Suc (length (join_comma xs)) = sum_list (map (\<lambda>x. Suc (length x)) xs)"
  by (induction xs rule: join_comma.induct) simp_all

lemma length_json_object:
  assumes "ms \<noteq> []"
  shows "length (json_object ms) = Suc (sum_list (map (\<lambda>x. Suc (length (json_member x))) ms))"
proof -
  have "map json_member ms \<noteq> []" using assms by simp
  from length_join_comma[OF this] show ?thesis
    by (simp add: json_object_def comp_def)
qed

lemma member_size_simps [simp]:
  "member_size [] = 0"
  "member_size (x # ms) = Suc (length (json_member x)) + member_size ms"
  "member_size (ms @ ns) = member_size ms + member_size ns"
  by (simp_all add: member_size_def)

lemma length_json_object':
  "ms \<noteq> [] \<Longrightarrow> length (json_object ms) = Suc (member_size ms)"
  by (simp add: length_json_object member_size_def)

lemma json_map_members:
  assumes "finite (dom f)"
  shows "member_size (map (\<lambda>k. (k, json_string (lookup (Some f) k))) (sorted_list_of_set (dom f)))
       = (\<Sum>k\<in>dom f. Suc (length (json_member (k, json_string (lookup (Some f) k)))))"
  using assms
  by (simp add: member_size_def comp_def sum_list_distinct_conv_sum_set)

lemma json_map_grows:
  assumes "finite (dom f)" "k \<notin> dom f" "dom f \<noteq> {}"
  shows "length (json_map (Some f)) < length (json_map (Some (f(k \<mapsto> v))))"
proof -
  let ?g = "\<lambda>f k. Suc (length (json_member (k, json_string (lookup (Some f) k))))"
  have fin: "finite (dom (f(k \<mapsto> v)))" using assms(1) by simp
  have ne: "sorted_list_of_set (dom f) \<noteq> []" "sorted_list_of_set (dom (f(k \<mapsto> v))) \<noteq> []"
    using assms(1,3) fin by simp_all
  have same: "(\<Sum>x\<in>dom f. ?g (f(k \<mapsto> v)) x) = (\<Sum>x\<in>dom f. ?g f x)"
    using assms(2) by (intro sum.cong) auto
  have "(\<Sum>x\<in>dom (f(k \<mapsto> v)). ?g (f(k \<mapsto> v)) x) = ?g (f(k \<mapsto> v)) k + (\<Sum>x\<in>dom f. ?g f x)"
    using assms(1,2) same by (simp add: sum.insert)
  then show ?thesis
    using ne json_map_members[OF assms(1)] json_map_members[OF fin]
    by (simp add: json_map_def length_json_object' del: dom_fun_upd lookup_simps)
qed

lemma map_member_grows:
  assumes "finite (dom (entries L))" "k \<notin> dom (entries L)"
  shows "member_size (omitempty (map_len L = 0) (key, json_map L))
       < member_size (omitempty (map_len (Some ((entries L)(k \<mapsto> v))) = 0)
           (key, json_map (Some ((entries L)(k \<mapsto> v)))))"
proof -
  have new: "map_len (Some ((entries L)(k \<mapsto> v))) \<noteq> 0"
    using assms(1) by (simp add: map_len_def)
  show ?thesis
  proof (cases "map_len L = 0")
    case True
    with new show ?thesis by (simp add: omitempty_def)
  next
    case False
    then obtain f where L: "L = Some f" and ne: "dom f \<noteq> {}"
      by (cases L) (auto simp: map_len_def card_gt_0_iff simp del: dom_eq_empty_conv)
    from json_map_grows[of f k v] assms L ne
    have "length (json_map (Some f)) < length (json_map (Some (f(k \<mapsto> v))))" by simp
    with False new L show ?thesis
      by (simp add: omitempty_def json_member_def del: lookup_simps)
  qed
qed

lemma canonical_entries:
  "entries (canonicalizeMap (copyMap L)) = (\<lambda>x. map_option TrimSpace (entries L x))"
  by (cases L) (simp_all add: canonicalizeMap_def copyMap_def)

lemma canonical_update:
  "canonicalizeMap (copyMap (Some (f(k \<mapsto> v))))
     = Some ((\<lambda>x. map_option TrimSpace (f x))(k \<mapsto> TrimSpace v))"
  by (simp add: canonicalizeMap_def copyMap_def fun_eq_iff)

lemma canonical_member_grows:
  assumes "finite (dom (entries L))" "k \<notin> dom (entries L)"
  shows "member_size (omitempty (map_len (canonicalizeMap (copyMap L)) = 0)
           (key, json_map (canonicalizeMap (copyMap L))))
       < member_size (omitempty
           (map_len (canonicalizeMap (copyMap (Some ((entries L)(k \<mapsto> v))))) = 0)
           (key, json_map (canonicalizeMap (copyMap (Some ((entries L)(k \<mapsto> v)))))))"
proof -
  let ?C = "canonicalizeMap (copyMap L)"
  have d: "dom (entries ?C) = dom (entries L)"
    by (auto simp: canonical_entries dom_def)
  have u: "canonicalizeMap (copyMap (Some ((entries L)(k \<mapsto> v))))
         = Some ((entries ?C)(k \<mapsto> TrimSpace v))"
    by (simp add: canonical_update canonical_entries)
  show ?thesis
    unfolding u using map_member_grows[of ?C k key "TrimSpace v"] assms d by simp
qed

lemma template_grows:
  assumes "pt_Annotations t1 = pt_Annotations t2" "pt_Containers t1 = pt_Containers t2"
    "pt_Labels t2 = Some ((entries (pt_Labels t1))(k \<mapsto> v))"
    "finite (dom (entries (pt_Labels t1)))" "k \<notin> dom (entries (pt_Labels t1))"
    "ds_Replicas s1 = ds_Replicas s2" "ds_Strategy s1 = ds_Strategy s2"
    "ds_Template s1 = t1" "ds_Template s2 = t2" "dep_Spec d1 = s1" "dep_Spec d2 = s2"
    "Marshal_DeploymentFingerprint (canonicalDeployment d1) = Inr a"
  shows "\<exists>b. Marshal_DeploymentFingerprint (canonicalDeployment d2) = Inr b
            \<and> length a < length b"
  using assms(1-3,6-12) canonical_member_grows[OF assms(4,5), of "''labels''" v]
  by (auto simp: Marshal_DeploymentFingerprint_def canonicalDeployment_def Let_def
      Marshal_PodTemplateFingerprint_def fingerprintPodTemplate_def length_json_object'
      json_member_def
      split: sum.splits option.splits simp del: lookup_simps)

lemma annotations_grow:
  assumes "pt_Labels t1 = pt_Labels t2" "pt_Containers t1 = pt_Containers t2"
    "pt_Annotations t2 = Some ((entries (pt_Annotations t1))(k \<mapsto> v))"
    "finite (dom (entries (pt_Annotations t1)))" "k \<notin> dom (entries (pt_Annotations t1))"
    "ds_Replicas s1 = ds_Replicas s2" "ds_Strategy s1 = ds_Strategy s2"
    "ds_Template s1 = t1" "ds_Template s2 = t2" "dep_Spec d1 = s1" "dep_Spec d2 = s2"
    "Marshal_DeploymentFingerprint (canonicalDeployment d1) = Inr a"
  shows "\<exists>b. Marshal_DeploymentFingerprint (canonicalDeployment d2) = Inr b
            \<and> length a < length b"
  using assms(1-3,6-12) canonical_member_grows[OF assms(4,5), of "''annotations''" v]
  by (auto simp: Marshal_DeploymentFingerprint_def canonicalDeployment_def Let_def
      Marshal_PodTemplateFingerprint_def fingerprintPodTemplate_def length_json_object'
      json_member_def
      split: sum.splits option.splits simp del: lookup_simps)

lemma selector_grows:
  assumes "ss_Type s1 = ss_Type s2" "ss_Ports s1 = ss_Ports s2"
    "ss_Selector s2 = Some ((entries (ss_Selector s1))(k \<mapsto> v))"
    "finite (dom (entries (ss_Selector s1)))" "k \<notin> dom (entries (ss_Selector s1))"
    "svc_Spec v1 = s1" "svc_Spec v2 = s2"
    "Marshal_ServiceFingerprint (canonicalService v1) = Inr a"
  shows "\<exists>b. Marshal_ServiceFingerprint (canonicalService v2) = Inr b \<and> length a < length b"
  using assms(1-3,6-8) canonical_member_grows[OF assms(4,5), of "''selector''" v]
  by (auto simp: Marshal_ServiceFingerprint_def canonicalService_def Let_def
      length_json_object' json_member_def simp del: lookup_simps)

text \<open>
  Claim C5, as the code has it. In the maps of the fingerprint (the labels and the
  annotations of the pod template, the selector of a service) an entry with the empty
  string as its value is written, so that a specification with such an entry and the
  same specification without the key have canonical serializations of different length,
  and hashes that are equal only if the digest agrees on the two. A string field tagged
  \<open>omitempty\<close> is left out when it is empty: an environment entry with an empty value is
  written with its name alone, and a port with no name and no protocol with its number
  alone.
\<close>

theorem empty_value_kept_in_maps_omitted_in_fields:
  "(ds_Replicas (dep_Spec d1) = ds_Replicas (dep_Spec d2)
      \<and> ds_Strategy (dep_Spec d1) = ds_Strategy (dep_Spec d2)
      \<and> pt_Annotations (ds_Template (dep_Spec d1)) = pt_Annotations (ds_Template (dep_Spec d2))
      \<and> pt_Containers (ds_Template (dep_Spec d1)) = pt_Containers (ds_Template (dep_Spec d2))
      \<and> finite (dom (entries (pt_Labels (ds_Template (dep_Spec d1)))))
      \<and> k \<notin> dom (entries (pt_Labels (ds_Template (dep_Spec d1))))
      \<and> pt_Labels (ds_Template (dep_Spec d2))
          = Some ((entries (pt_Labels (ds_Template (dep_Spec d1))))(k \<mapsto> ''''))
      \<and> Marshal_DeploymentFingerprint (canonicalDeployment d1) = Inr a
    \<longrightarrow> (\<exists>b. Marshal_DeploymentFingerprint (canonicalDeployment d2) = Inr b
            \<and> length a < length b \<and> a \<noteq> b
            \<and> (HashDeployment Sum256 d1 = HashDeployment Sum256 d2 \<longrightarrow> Sum256 a = Sum256 b)))
   \<and> (ds_Replicas (dep_Spec d1) = ds_Replicas (dep_Spec d2)
      \<and> ds_Strategy (dep_Spec d1) = ds_Strategy (dep_Spec d2)
      \<and> pt_Labels (ds_Template (dep_Spec d1)) = pt_Labels (ds_Template (dep_Spec d2))
      \<and> pt_Containers (ds_Template (dep_Spec d1)) = pt_Containers (ds_Template (dep_Spec d2))
      \<and> finite (dom (entries (pt_Annotations (ds_Template (dep_Spec d1)))))
      \<and> k \<notin> dom (entries (pt_Annotations (ds_Template (dep_Spec d1))))
      \<and> pt_Annotations (ds_Template (dep_Spec d2))
          = Some ((entries (pt_Annotations (ds_Template (dep_Spec d1))))(k \<mapsto> ''''))
      \<and> Marshal_DeploymentFingerprint (canonicalDeployment d1) = Inr a
    \<longrightarrow> (\<exists>b. Marshal_DeploymentFingerprint (canonicalDeployment d2) = Inr b
            \<and> length a < length b \<and> a \<noteq> b
            \<and> (HashDeployment Sum256 d1 = HashDeployment Sum256 d2 \<longrightarrow> Sum256 a = Sum256 b)))
   \<and> (ss_Type (svc_Spec v1) = ss_Type (svc_Spec v2)
      \<and> ss_Ports (svc_Spec v1) = ss_Ports (svc_Spec v2)
      \<and> finite (dom (entries (ss_Selector (svc_Spec v1))))
      \<and> k \<notin> dom (entries (ss_Selector (svc_Spec v1)))
      \<and> ss_Selector (svc_Spec v2) = Some ((entries (ss_Selector (svc_Spec v1)))(k \<mapsto> ''''))
      \<and> Marshal_ServiceFingerprint (canonicalService v1) = Inr a'
    \<longrightarrow> (\<exists>b. Marshal_ServiceFingerprint (canonicalService v2) = Inr b
            \<and> length a' < length b \<and> a' \<noteq> b
            \<and> (HashService Sum256 v1 = HashService Sum256 v2 \<longrightarrow> Sum256 a' = Sum256 b)))
   \<and> (evf_Value e = ''''
    \<longrightarrow> Marshal_EnvVarFingerprint e = json_object [(''name'', json_string (evf_Name e))])
   \<and> (cpf_Name p = '''' \<and> cpf_Protocol p = ''''
    \<longrightarrow> Marshal_ContainerPortFingerprint p
         = json_object [(''containerPort'', json_int32 (cpf_ContainerPort p))])"
proof (intro conjI impI; (elim conjE)?)
  assume h: "ds_Replicas (dep_Spec d1) = ds_Replicas (dep_Spec d2)"
    "ds_Strategy (dep_Spec d1) = ds_Strategy (dep_Spec d2)"
    "pt_Annotations (ds_Template (dep_Spec d1)) = pt_Annotations (ds_Template (dep_Spec d2))"
    "pt_Containers (ds_Template (dep_Spec d1)) = pt_Containers (ds_Template (dep_Spec d2))"
    "finite (dom (entries (pt_Labels (ds_Template (dep_Spec d1)))))"
    "k \<notin> dom (entries (pt_Labels (ds_Template (dep_Spec d1))))"
    "pt_Labels (ds_Template (dep_Spec d2))
          = Some ((entries (pt_Labels (ds_Template (dep_Spec d1))))(k \<mapsto> ''''))"
    "Marshal_DeploymentFingerprint (canonicalDeployment d1) = Inr a"
  from template_grows[OF h(3,4,7,5,6,1,2) refl refl refl refl h(8)] obtain b where
    b: "Marshal_DeploymentFingerprint (canonicalDeployment d2) = Inr b" "length a < length b"
    by blast
  have "Sum256 a = Sum256 b" if "HashDeployment Sum256 d1 = HashDeployment Sum256 d2"
    using that HashDeployment_bytes[OF h(8), of Sum256] HashDeployment_bytes[OF b(1), of Sum256]
    by (simp add: EncodeToString_inj)
  with b show "\<exists>b. Marshal_DeploymentFingerprint (canonicalDeployment d2) = Inr b
            \<and> length a < length b \<and> a \<noteq> b
            \<and> (HashDeployment Sum256 d1 = HashDeployment Sum256 d2 \<longrightarrow> Sum256 a = Sum256 b)"
    by auto
next
  assume h: "ds_Replicas (dep_Spec d1) = ds_Replicas (dep_Spec d2)"
    "ds_Strategy (dep_Spec d1) = ds_Strategy (dep_Spec d2)"
    "pt_Labels (ds_Template (dep_Spec d1)) = pt_Labels (ds_Template (dep_Spec d2))"
    "pt_Containers (ds_Template (dep_Spec d1)) = pt_Containers (ds_Template (dep_Spec d2))"
    "finite (dom (entries (pt_Annotations (ds_Template (dep_Spec d1)))))"
    "k \<notin> dom (entries (pt_Annotations (ds_Template (dep_Spec d1))))"
    "pt_Annotations (ds_Template (dep_Spec d2))
          = Some ((entries (pt_Annotations (ds_Template (dep_Spec d1))))(k \<mapsto> ''''))"
    "Marshal_DeploymentFingerprint (canonicalDeployment d1) = Inr a"
  from annotations_grow[OF h(3,4,7,5,6,1,2) refl refl refl refl h(8)] obtain b where
    b: "Marshal_DeploymentFingerprint (canonicalDeployment d2) = Inr b" "length a < length b"
    by blast
  have "Sum256 a = Sum256 b" if "HashDeployment Sum256 d1 = HashDeployment Sum256 d2"
    using that HashDeployment_bytes[OF h(8), of Sum256] HashDeployment_bytes[OF b(1), of Sum256]
    by (simp add: EncodeToString_inj)
  with b show "\<exists>b. Marshal_DeploymentFingerprint (canonicalDeployment d2) = Inr b
            \<and> length a < length b \<and> a \<noteq> b
            \<and> (HashDeployment Sum256 d1 = HashDeployment Sum256 d2 \<longrightarrow> Sum256 a = Sum256 b)"
    by auto
next
  assume h: "ss_Type (svc_Spec v1) = ss_Type (svc_Spec v2)"
    "ss_Ports (svc_Spec v1) = ss_Ports (svc_Spec v2)"
    "finite (dom (entries (ss_Selector (svc_Spec v1))))"
    "k \<notin> dom (entries (ss_Selector (svc_Spec v1)))"
    "ss_Selector (svc_Spec v2) = Some ((entries (ss_Selector (svc_Spec v1)))(k \<mapsto> ''''))"
    "Marshal_ServiceFingerprint (canonicalService v1) = Inr a'"
  from selector_grows[OF h(1,2,5,3,4) refl refl h(6)] obtain b where
    b: "Marshal_ServiceFingerprint (canonicalService v2) = Inr b" "length a' < length b"
    by blast
  have "Sum256 a' = Sum256 b" if "HashService Sum256 v1 = HashService Sum256 v2"
    using that HashService_bytes[OF h(6), of Sum256] HashService_bytes[OF b(1), of Sum256]
    by (simp add: EncodeToString_inj)
  with b show "\<exists>b. Marshal_ServiceFingerprint (canonicalService v2) = Inr b
            \<and> length a' < length b \<and> a' \<noteq> b
            \<and> (HashService Sum256 v1 = HashService Sum256 v2 \<longrightarrow> Sum256 a' = Sum256 b)"
    by auto
next
  assume "evf_Value e = ''''"
  then show "Marshal_EnvVarFingerprint e = json_object [(''name'', json_string (evf_Name e))]"
    by (simp add: Marshal_EnvVarFingerprint_def omitempty_def)
next
  assume "cpf_Name p = ''''" "cpf_Protocol p = ''''"
  then show "Marshal_ContainerPortFingerprint p
         = json_object [(''containerPort'', json_int32 (cpf_ContainerPort p))]"
    by (simp add: Marshal_ContainerPortFingerprint_def omitempty_def)
qed

theorem empty_value_kept_in_maps_omitted_in_fields_witness:
  \<open>Marshal_DeploymentFingerprint (canonicalDeployment (web_template None None))
     = Inr ''{"replicas":2,"strategy":{},"template":{"containers":[{"name":"app","image":"nginx:1.25","resources":{}}]}}''
   \<and> HashDeployment plain (web_template None None)
       \<noteq> HashDeployment plain (web_template (Some [''tier'' \<mapsto> '''']) None)
   \<and> HashDeployment plain (web_template None None)
       \<noteq> HashDeployment plain (web_template None (Some [''note'' \<mapsto> '''']))
   \<and> Marshal_ServiceFingerprint (canonicalService (dns_selecting None))
     = Inr ''{"type":"ClusterIP","ports":[{"protocol":"UDP","port":53,"targetPort":"53"}]}''
   \<and> HashService plain (dns_selecting None)
       \<noteq> HashService plain (dns_selecting (Some [''app'' \<mapsto> '''']))
   \<and> Marshal_EnvVarFingerprint \<lparr>evf_Name = ''LOG_LEVEL'', evf_Value = ''''\<rparr>
     = json_object [(''name'', json_string ''LOG_LEVEL'')]
   \<and> Marshal_ContainerPortFingerprint
       \<lparr>cpf_Name = '''', cpf_ContainerPort = 53, cpf_Protocol = ''''\<rparr>
     = json_object [(''containerPort'', json_int32 53)]\<close>
proof -
  define A where \<open>A = ''{"replicas":2,"strategy":{},"template":{"containers":[{"name":"app","image":"nginx:1.25","resources":{}}]}}''\<close>
  define A' where \<open>A' = ''{"type":"ClusterIP","ports":[{"protocol":"UDP","port":53,"targetPort":"53"}]}''\<close>
  have a: "Marshal_DeploymentFingerprint (canonicalDeployment (web_template None None)) = Inr A"
    by (simp add: A_def marshal_defs web_template_def app_def)
  have a': "Marshal_ServiceFingerprint (canonicalService (dns_selecting None)) = Inr A'"
    by (simp add: A'_def marshal_defs dns_selecting_def dns_port_def)
  note T = empty_value_kept_in_maps_omitted_in_fields
  have labels: "HashDeployment plain (web_template None None)
       \<noteq> HashDeployment plain (web_template (Some [''tier'' \<mapsto> '''']) None)"
    using T[of "web_template None None" "web_template (Some [''tier'' \<mapsto> '''']) None"
        "''tier''" A plain, THEN conjunct1] a
    by (auto simp: web_template_def plain_def)
  have anns: "HashDeployment plain (web_template None None)
       \<noteq> HashDeployment plain (web_template None (Some [''note'' \<mapsto> '''']))"
    using T[of "web_template None None" "web_template None (Some [''note'' \<mapsto> ''''])"
        "''note''" A plain, THEN conjunct2, THEN conjunct1] a
    by (auto simp: web_template_def plain_def)
  have sel: "HashService plain (dns_selecting None)
       \<noteq> HashService plain (dns_selecting (Some [''app'' \<mapsto> '''']))"
    using T[of _ _ "''app''" _ plain "dns_selecting None"
        "dns_selecting (Some [''app'' \<mapsto> ''''])" A',
        THEN conjunct2, THEN conjunct2, THEN conjunct1] a'
    by (auto simp: dns_selecting_def plain_def)
  have fields: "Marshal_EnvVarFingerprint \<lparr>evf_Name = ''LOG_LEVEL'', evf_Value = ''''\<rparr>
     = json_object [(''name'', json_string ''LOG_LEVEL'')]"
    "Marshal_ContainerPortFingerprint
       \<lparr>cpf_Name = '''', cpf_ContainerPort = 53, cpf_Protocol = ''''\<rparr>
     = json_object [(''containerPort'', json_int32 53)]"
    using T[of _ _ _ _ _ _ _ _ "\<lparr>evf_Name = ''LOG_LEVEL'', evf_Value = ''''\<rparr>"
        "\<lparr>cpf_Name = '''', cpf_ContainerPort = 53, cpf_Protocol = ''''\<rparr>"]
    by simp_all
  from a a' labels anns sel fields show ?thesis
    by (simp add: A_def A'_def)
qed

text \<open>
  The claim as stated fails on string fields: an environment entry whose value is the
  empty string is written without a value member, and a port whose name is empty without
  a name member, exactly as if the value were absent; a deployment whose variable has the
  literal value \<open>""\<close> hashes as the one whose variable has no literal value and a secret
  reference instead.
\<close>

theorem empty_field_is_serialized_as_absent:
  \<open>Marshal_EnvVarFingerprint \<lparr>evf_Name = ''LOG_LEVEL'', evf_Value = ''''\<rparr>
     = ''{"name":"LOG_LEVEL"}''
   \<and> Marshal_ContainerPortFingerprint
       \<lparr>cpf_Name = '''', cpf_ContainerPort = 53, cpf_Protocol = ''''\<rparr>
     = ''{"containerPort":53}''
   \<and> HashDeployment plain (web_with [app\<lparr>c_Env :=
         [\<lparr>ev_Name = ''DB_PASSWORD'', ev_Value = '''', ev_ValueFrom = None\<rparr>]\<rparr>])
     = HashDeployment plain (web_with [app\<lparr>c_Env := [secret_env ''DB_PASSWORD'']\<rparr>])\<close>
  by (simp add: marshal_defs web_with_def web_spec_def app_def secret_env_def)

subsection \<open>The order of the input lists\<close>

text \<open>
  Claim C3 at a container with two unnamed ports 53, one for UDP and one for TCP. The two
  ports are tied under the comparison by port number and name, so \<^verbatim>\<open>sort.Slice\<close> leaves
  them in the order of the input: the same ports listed in the other order give another
  canonical JSON text and another hash.
\<close>

theorem tied_ports_keep_input_order:
  \<open>mset [port53 ''UDP'', port53 ''TCP''] = mset [port53 ''TCP'', port53 ''UDP'']
   \<and> \<not> port_less (fingerprintPort (port53 ''UDP'')) (fingerprintPort (port53 ''TCP''))
   \<and> \<not> port_less (fingerprintPort (port53 ''TCP'')) (fingerprintPort (port53 ''UDP''))
   \<and> Marshal_DeploymentFingerprint
         (canonicalDeployment (web_with [app\<lparr>c_Ports := [port53 ''UDP'', port53 ''TCP'']\<rparr>]))
     = Inr ''{"replicas":2,"strategy":{},"template":{"containers":[{"name":"app","image":"nginx:1.25","ports":[{"containerPort":53,"protocol":"UDP"},{"containerPort":53,"protocol":"TCP"}],"resources":{}}]}}''
   \<and> Marshal_DeploymentFingerprint
         (canonicalDeployment (web_with [app\<lparr>c_Ports := [port53 ''TCP'', port53 ''UDP'']\<rparr>]))
     = Inr ''{"replicas":2,"strategy":{},"template":{"containers":[{"name":"app","image":"nginx:1.25","ports":[{"containerPort":53,"protocol":"TCP"},{"containerPort":53,"protocol":"UDP"}],"resources":{}}]}}''
   \<and> HashDeployment plain (web_with [app\<lparr>c_Ports := [port53 ''UDP'', port53 ''TCP'']\<rparr>])
       \<noteq> HashDeployment plain (web_with [app\<lparr>c_Ports := [port53 ''TCP'', port53 ''UDP'']\<rparr>])\<close>
  by (simp add: marshal_defs web_with_def web_spec_def app_def port53_def plain_def
      EncodeToString_def hexdigit_def)

subsection \<open>Lists without ties\<close>

lemma tie_free_asym:
  assumes "tie_free lt A" "a \<in> A" "b \<in> A" "lt a b"
  shows "\<not> lt b a"
  using assms unfolding tie_free_def by blast

lemma tie_free_trans:
  assumes "tie_free lt A" "a \<in> A" "b \<in> A" "c \<in> A" "lt a b" "lt b c"
  shows "lt a c"
  using assms unfolding tie_free_def by blast

lemma tie_free_total:
  assumes "tie_free lt A" "a \<in> A" "b \<in> A" "a \<noteq> b"
  shows "lt a b \<or> lt b a"
  using assms unfolding tie_free_def by blast

lemma tie_free_neg_trans:
  assumes "tie_free lt A" "a \<in> A" "b \<in> A" "c \<in> A" "\<not> lt a b" "\<not> lt b c"
  shows "\<not> lt a c"
proof
  assume ac: "lt a c"
  from assms(5,6) ac have ne: "a \<noteq> b" "b \<noteq> c" by auto
  from tie_free_total[OF assms(1,2,3) ne(1)] assms(5) have ba: "lt b a" by simp
  from tie_free_total[OF assms(1,3,4) ne(2)] assms(6) have cb: "lt c b" by simp
  from tie_free_trans[OF assms(1,4,3,2) cb ba] have "lt c a" .
  with tie_free_asym[OF assms(1,2,4) ac] show False by simp
qed

lemma set_insert_left: "set (insert_left lt x ys) = insert x (set ys)"
  by (induction ys) auto

lemma insert_left_sorted:
  assumes "tie_free lt A" "x \<in> A" "set ys \<subseteq> A" "sorted_wrt (\<lambda>a b. \<not> lt a b) ys"
  shows "sorted_wrt (\<lambda>a b. \<not> lt a b) (insert_left lt x ys)"
  using assms(3,4)
proof (induction ys)
  case Nil
  then show ?case by simp
next
  case (Cons y ys)
  show ?case
  proof (cases "lt x y")
    case True
    have "\<not> lt y x" using tie_free_asym[OF assms(1,2) _ True] Cons.prems(1) by simp
    with True Cons show ?thesis by (auto simp: set_insert_left)
  next
    case False
    have "\<not> lt x z" if "z \<in> set ys" for z
      using tie_free_neg_trans[OF assms(1), of x y z] assms(2) Cons.prems that False by auto
    with False Cons.prems show ?thesis by auto
  qed
qed

lemma foldl_insert_left_sorted:
  assumes "tie_free lt A" "set xs \<subseteq> A" "set acc \<subseteq> A" "sorted_wrt (\<lambda>a b. \<not> lt a b) acc"
  shows "sorted_wrt (\<lambda>a b. \<not> lt a b) (foldl (\<lambda>acc x. insert_left lt x acc) acc xs)"
  using assms(2-4)
proof (induction xs arbitrary: acc)
  case Nil
  then show ?case by simp
next
  case (Cons x xs)
  have "sorted_wrt (\<lambda>a b. \<not> lt a b) (insert_left lt x acc)"
    using insert_left_sorted[OF assms(1), of x acc] Cons.prems by simp
  moreover have "set (insert_left lt x acc) \<subseteq> A"
    using Cons.prems by (simp add: set_insert_left)
  ultimately show ?case using Cons.IH[of "insert_left lt x acc"] Cons.prems by simp
qed

lemma sort_Slice_sorted:
  assumes "tie_free lt A" "set xs \<subseteq> A"
  shows "sorted_wrt (\<lambda>a b. \<not> lt b a) (sort_Slice lt xs)"
  using foldl_insert_left_sorted[OF assms, of "[]"]
  by (simp add: sort_Slice_def sorted_wrt_rev)

lemma sorted_unique:
  assumes "tie_free lt A" "set xs \<subseteq> A" "mset xs = mset ys"
    "sorted_wrt (\<lambda>a b. \<not> lt b a) xs" "sorted_wrt (\<lambda>a b. \<not> lt b a) ys"
  shows "xs = ys"
  using assms(2-5)
proof (induction xs arbitrary: ys)
  case Nil
  then show ?case by simp
next
  case (Cons x xs)
  from Cons.prems(2) obtain y ys' where ys: "ys = y # ys'"
    by (cases ys) auto
  have sets: "set (x # xs) = set (y # ys')" using Cons.prems(2) ys by (metis set_mset_mset)
  have "x = y"
  proof (rule ccontr)
    assume ne: "x \<noteq> y"
    then have "y \<in> set xs" "x \<in> set ys'" using sets by auto
    then have "\<not> lt y x" "\<not> lt x y" using Cons.prems(3,4) ys by auto
    moreover have "x \<in> A" "y \<in> A" using Cons.prems(1) sets by auto
    ultimately show False using tie_free_total[OF assms(1) _ _ ne] by simp
  qed
  moreover from this have "mset xs = mset ys'" using Cons.prems(2) ys by simp
  ultimately show ?case using Cons.IH[of ys'] Cons.prems ys by simp
qed

lemma sort_Slice_permuted:
  assumes "tie_free lt (set xs)" "mset xs = mset ys"
  shows "sort_Slice lt xs = sort_Slice lt ys"
proof -
  have s: "set ys = set xs" using assms(2) by (metis set_mset_mset)
  have 1: "set (sort_Slice lt xs) \<subseteq> set xs"
    using sort_Slice_mset[of lt xs] by (metis set_mset_mset order_refl)
  have 2: "mset (sort_Slice lt xs) = mset (sort_Slice lt ys)"
    using assms(2) by (simp add: sort_Slice_mset)
  have 3: "sorted_wrt (\<lambda>a b. \<not> lt b a) (sort_Slice lt xs)"
    using sort_Slice_sorted[OF assms(1)] by simp
  have 4: "sorted_wrt (\<lambda>a b. \<not> lt b a) (sort_Slice lt ys)"
    using sort_Slice_sorted[OF assms(1), of ys] s by simp
  from sorted_unique[OF assms(1) 1 2 3 4] show ?thesis .
qed

lemma container_less_tie_free:
  assumes "inj_on cf_Name A"
  shows "tie_free container_less A"
  unfolding tie_free_def
proof (intro conjI ballI impI)
  fix a b assume "a \<in> A" "b \<in> A" "a \<noteq> b"
  with assms have "cf_Name a \<noteq> cf_Name b" by (auto simp: inj_on_def)
  then show "container_less a b \<or> container_less b a"
    unfolding container_less_def by (rule linorder_neqE) simp_all
qed (auto simp: container_less_def dest: less_trans)

lemma env_less_tie_free:
  assumes "inj_on evf_Name A"
  shows "tie_free env_less A"
  unfolding tie_free_def
proof (intro conjI ballI impI)
  fix a b assume "a \<in> A" "b \<in> A" "a \<noteq> b"
  with assms have "evf_Name a \<noteq> evf_Name b" by (auto simp: inj_on_def)
  then show "env_less a b \<or> env_less b a"
    unfolding env_less_def by (rule linorder_neqE) simp_all
qed (auto simp: env_less_def dest: less_trans)

lemma sint_inject: "sint (a :: int32) = sint b \<Longrightarrow> a = b"
  by (rule signed_word_eqI)

lemma port_less_tie_free:
  assumes "inj_on (\<lambda>p. (cpf_ContainerPort p, cpf_Name p)) A"
  shows "tie_free port_less A"
  unfolding tie_free_def
proof (intro conjI ballI impI)
  fix a b assume "port_less a b"
  then show "\<not> port_less b a"
    by (auto simp: port_less_def Let_def split: if_splits)
next
  fix a b c assume "port_less a b" "port_less b c"
  then show "port_less a c"
    by (auto simp: port_less_def Let_def split: if_splits dest: less_trans)
next
  fix a b assume "a \<in> A" "b \<in> A" "a \<noteq> b"
  with assms have "cpf_ContainerPort a \<noteq> cpf_ContainerPort b \<or> cpf_Name a \<noteq> cpf_Name b"
    by (auto simp: inj_on_def)
  then show "port_less a b \<or> port_less b a"
    using sint_inject[of "cpf_ContainerPort a" "cpf_ContainerPort b"]
    by (auto simp: port_less_def Let_def not_less_iff_gr_or_eq)
qed

lemma serviceport_less_tie_free:
  assumes "inj_on (\<lambda>p. (spf_Port p, spf_Name p)) A"
  shows "tie_free serviceport_less A"
  unfolding tie_free_def
proof (intro conjI ballI impI)
  fix a b assume "serviceport_less a b"
  then show "\<not> serviceport_less b a"
    by (auto simp: serviceport_less_def split: if_splits)
next
  fix a b c assume "serviceport_less a b" "serviceport_less b c"
  then show "serviceport_less a c"
    by (auto simp: serviceport_less_def split: if_splits dest: less_trans)
next
  fix a b assume "a \<in> A" "b \<in> A" "a \<noteq> b"
  with assms have "spf_Port a \<noteq> spf_Port b \<or> spf_Name a \<noteq> spf_Name b"
    by (auto simp: inj_on_def)
  then show "serviceport_less a b \<or> serviceport_less b a"
    using sint_inject[of "spf_Port a" "spf_Port b"]
    by (auto simp: serviceport_less_def not_less_iff_gr_or_eq)
qed

lemma insert_left_map:
  assumes "\<And>a b. lt (f a) (f b) = lt a b"
  shows "insert_left lt (f x) (map f ys) = map f (insert_left lt x ys)"
  by (induction ys) (simp_all add: assms)

lemma foldl_insert_left_map:
  assumes "\<And>a b. lt (f a) (f b) = lt a b"
  shows "foldl (\<lambda>acc x. insert_left lt x acc) (map f acc) (map f xs)
       = map f (foldl (\<lambda>acc x. insert_left lt x acc) acc xs)"
  by (induction xs arbitrary: acc) (simp_all add: insert_left_map[of lt f, OF assms])

lemma sort_Slice_map:
  assumes "\<And>a b. lt (f a) (f b) = lt a b"
  shows "sort_Slice lt (map f xs) = map f (sort_Slice lt xs)"
  using foldl_insert_left_map[of lt f "[]" xs, OF assms]
  by (simp add: sort_Slice_def rev_map)

lemma canonical_containers:
  "ptf_Containers (df_Template (canonicalDeployment d))
     = sort_Slice container_less
         (map (sortContainer \<circ> fingerprintContainer) (pt_Containers (ds_Template (dep_Spec d))))"
proof -
  have "container_less (sortContainer a) (sortContainer b) = container_less a b" for a b
    by (simp add: container_less_def sortContainer_def)
  from sort_Slice_map[of container_less sortContainer, OF this,
      where xs = "map fingerprintContainer (pt_Containers (ds_Template (dep_Spec d)))"]
  show ?thesis
    by (simp add: canonicalDeployment_def Let_def fingerprintPodTemplate_def)
qed

lemma containers_permuted:
  assumes "mset cs1 = mset cs2" "inj_on c_Name (set cs1)"
  shows "sort_Slice container_less (map (sortContainer \<circ> fingerprintContainer) cs1)
       = sort_Slice container_less (map (sortContainer \<circ> fingerprintContainer) cs2)"
proof -
  let ?F = "sortContainer \<circ> fingerprintContainer"
  have n: "cf_Name (?F c) = c_Name c" for c
    by (simp add: sortContainer_def fingerprintContainer_def)
  have "inj_on cf_Name (?F ` set cs1)"
    using assms(2) by (auto simp: inj_on_def n simp del: comp_apply)
  then have "tie_free container_less (set (map ?F cs1))"
    using container_less_tie_free by simp
  moreover have "mset (map ?F cs1) = mset (map ?F cs2)"
    using assms(1) by (metis mset_map)
  ultimately show ?thesis by (rule sort_Slice_permuted)
qed

lemma container_reordered:
  assumes "reordered_inside c c'" "untied c"
  shows "sortContainer (fingerprintContainer c) = sortContainer (fingerprintContainer c')"
proof -
  have "inj_on evf_Name (fingerprintEnv ` set (c_Env c))"
    using assms(2) by (auto simp: untied_def inj_on_def fingerprintEnv_def)
  then have "tie_free env_less (set (map fingerprintEnv (c_Env c)))"
    using env_less_tie_free by simp
  moreover have "mset (map fingerprintEnv (c_Env c)) = mset (map fingerprintEnv (c_Env c'))"
    using assms(1) by (metis mset_map reordered_inside_def)
  ultimately have e: "sort_Slice env_less (map fingerprintEnv (c_Env c))
      = sort_Slice env_less (map fingerprintEnv (c_Env c'))"
    by (rule sort_Slice_permuted)
  have "inj_on (\<lambda>p. (cpf_ContainerPort p, cpf_Name p)) (fingerprintPort ` set (c_Ports c))"
    using assms(2) by (auto simp: untied_def inj_on_def fingerprintPort_def)
  then have "tie_free port_less (set (map fingerprintPort (c_Ports c)))"
    using port_less_tie_free by simp
  moreover have "mset (map fingerprintPort (c_Ports c)) = mset (map fingerprintPort (c_Ports c'))"
    using assms(1) by (metis mset_map reordered_inside_def)
  ultimately have p: "sort_Slice port_less (map fingerprintPort (c_Ports c))
      = sort_Slice port_less (map fingerprintPort (c_Ports c'))"
    by (rule sort_Slice_permuted)
  show ?thesis
    using assms(1) e p
    by (simp add: sortContainer_def fingerprintContainer_def reordered_inside_def)
qed

lemma containers_reordered:
  assumes "list_all2 reordered_inside cs1 cs2" "list_all untied cs1"
  shows "map (sortContainer \<circ> fingerprintContainer) cs1
       = map (sortContainer \<circ> fingerprintContainer) cs2"
  using assms
  by (induction cs1 cs2 rule: list_all2_induct) (simp_all add: container_reordered)

lemma canonicalDeployment_eqI:
  assumes "ds_Replicas (dep_Spec d1) = ds_Replicas (dep_Spec d2)"
    "ds_Strategy (dep_Spec d1) = ds_Strategy (dep_Spec d2)"
    "pt_Labels (ds_Template (dep_Spec d1)) = pt_Labels (ds_Template (dep_Spec d2))"
    "pt_Annotations (ds_Template (dep_Spec d1)) = pt_Annotations (ds_Template (dep_Spec d2))"
    "ptf_Containers (df_Template (canonicalDeployment d1))
       = ptf_Containers (df_Template (canonicalDeployment d2))"
  shows "canonicalDeployment d1 = canonicalDeployment d2"
  using assms
  by (simp add: canonicalDeployment_def Let_def fingerprintPodTemplate_def)

text \<open>
  Where no two elements of a list are tied, the order of the input does not matter. The
  canonical fingerprint, and with it the hash, is the same for two deployments that
  differ in the order of their containers when different containers have different
  names; for two deployments whose containers differ in the order of their environment
  variables and ports when, within a container, different variables have different names
  and different ports differ in number or name; and for two services that differ in the
  order of their ports when different ports differ in number or name.
\<close>

theorem order_independent_without_ties:
  "(ds_Replicas (dep_Spec d1) = ds_Replicas (dep_Spec d2)
      \<and> ds_Strategy (dep_Spec d1) = ds_Strategy (dep_Spec d2)
      \<and> pt_Labels (ds_Template (dep_Spec d1)) = pt_Labels (ds_Template (dep_Spec d2))
      \<and> pt_Annotations (ds_Template (dep_Spec d1)) = pt_Annotations (ds_Template (dep_Spec d2))
      \<and> mset (pt_Containers (ds_Template (dep_Spec d1)))
          = mset (pt_Containers (ds_Template (dep_Spec d2)))
      \<and> inj_on c_Name (set (pt_Containers (ds_Template (dep_Spec d1))))
    \<longrightarrow> canonicalDeployment d1 = canonicalDeployment d2
        \<and> HashDeployment Sum256 d1 = HashDeployment Sum256 d2)
   \<and> (ds_Replicas (dep_Spec d1) = ds_Replicas (dep_Spec d2)
      \<and> ds_Strategy (dep_Spec d1) = ds_Strategy (dep_Spec d2)
      \<and> pt_Labels (ds_Template (dep_Spec d1)) = pt_Labels (ds_Template (dep_Spec d2))
      \<and> pt_Annotations (ds_Template (dep_Spec d1)) = pt_Annotations (ds_Template (dep_Spec d2))
      \<and> list_all2 reordered_inside (pt_Containers (ds_Template (dep_Spec d1)))
            (pt_Containers (ds_Template (dep_Spec d2)))
      \<and> list_all untied (pt_Containers (ds_Template (dep_Spec d1)))
    \<longrightarrow> canonicalDeployment d1 = canonicalDeployment d2
        \<and> HashDeployment Sum256 d1 = HashDeployment Sum256 d2)
   \<and> (ss_Type (svc_Spec v1) = ss_Type (svc_Spec v2)
      \<and> ss_Selector (svc_Spec v1) = ss_Selector (svc_Spec v2)
      \<and> mset (ss_Ports (svc_Spec v1)) = mset (ss_Ports (svc_Spec v2))
      \<and> inj_on (\<lambda>p. (sp_Port p, sp_Name p)) (set (ss_Ports (svc_Spec v1)))
    \<longrightarrow> canonicalService v1 = canonicalService v2
        \<and> HashService Sum256 v1 = HashService Sum256 v2)"
proof (intro conjI impI; elim conjE)
  assume h: "ds_Replicas (dep_Spec d1) = ds_Replicas (dep_Spec d2)"
    "ds_Strategy (dep_Spec d1) = ds_Strategy (dep_Spec d2)"
    "pt_Labels (ds_Template (dep_Spec d1)) = pt_Labels (ds_Template (dep_Spec d2))"
    "pt_Annotations (ds_Template (dep_Spec d1)) = pt_Annotations (ds_Template (dep_Spec d2))"
    and p: "mset (pt_Containers (ds_Template (dep_Spec d1)))
          = mset (pt_Containers (ds_Template (dep_Spec d2)))"
      "inj_on c_Name (set (pt_Containers (ds_Template (dep_Spec d1))))"
  have c: "canonicalDeployment d1 = canonicalDeployment d2"
    using containers_permuted[OF p]
    by (intro canonicalDeployment_eqI h) (simp add: canonical_containers)
  then show "canonicalDeployment d1 = canonicalDeployment d2"
    "HashDeployment Sum256 d1 = HashDeployment Sum256 d2"
    by (simp_all add: HashDeployment_def)
next
  assume h: "ds_Replicas (dep_Spec d1) = ds_Replicas (dep_Spec d2)"
    "ds_Strategy (dep_Spec d1) = ds_Strategy (dep_Spec d2)"
    "pt_Labels (ds_Template (dep_Spec d1)) = pt_Labels (ds_Template (dep_Spec d2))"
    "pt_Annotations (ds_Template (dep_Spec d1)) = pt_Annotations (ds_Template (dep_Spec d2))"
    and p: "list_all2 reordered_inside (pt_Containers (ds_Template (dep_Spec d1)))
            (pt_Containers (ds_Template (dep_Spec d2)))"
      "list_all untied (pt_Containers (ds_Template (dep_Spec d1)))"
  have c: "canonicalDeployment d1 = canonicalDeployment d2"
    using containers_reordered[OF p]
    by (intro canonicalDeployment_eqI h) (simp add: canonical_containers)
  then show "canonicalDeployment d1 = canonicalDeployment d2"
    "HashDeployment Sum256 d1 = HashDeployment Sum256 d2"
    by (simp_all add: HashDeployment_def)
next
  assume h: "ss_Type (svc_Spec v1) = ss_Type (svc_Spec v2)"
    "ss_Selector (svc_Spec v1) = ss_Selector (svc_Spec v2)"
    and p: "mset (ss_Ports (svc_Spec v1)) = mset (ss_Ports (svc_Spec v2))"
      "inj_on (\<lambda>p. (sp_Port p, sp_Name p)) (set (ss_Ports (svc_Spec v1)))"
  have "inj_on (\<lambda>p. (spf_Port p, spf_Name p))
          (fingerprintServicePort ` set (ss_Ports (svc_Spec v1)))"
    using p(2) by (auto simp: inj_on_def fingerprintServicePort_def)
  then have "tie_free serviceport_less
               (set (map fingerprintServicePort (ss_Ports (svc_Spec v1))))"
    using serviceport_less_tie_free by simp
  moreover have "mset (map fingerprintServicePort (ss_Ports (svc_Spec v1)))
               = mset (map fingerprintServicePort (ss_Ports (svc_Spec v2)))"
    using p(1) by (metis mset_map)
  ultimately have "sort_Slice serviceport_less (map fingerprintServicePort (ss_Ports (svc_Spec v1)))
      = sort_Slice serviceport_less (map fingerprintServicePort (ss_Ports (svc_Spec v2)))"
    by (rule sort_Slice_permuted)
  then have c: "canonicalService v1 = canonicalService v2"
    using h by (simp add: canonicalService_def Let_def)
  then show "canonicalService v1 = canonicalService v2"
    "HashService Sum256 v1 = HashService Sum256 v2"
    by (simp_all add: HashService_def)
qed


end
